theory Spec2Isabelle
  imports Main
begin

unbundle bit_operations_syntax

section \<open>Values exchanged with the remote service\<close>

text \<open>
  Everything the program reads from the network or from its own files is the result of
  \<^verbatim>\<open>json.load\<close> or \<^verbatim>\<open>response.json()\<close>: a Python object built from dictionaries,
  lists, strings, numbers, booleans and \<^verbatim>\<open>None\<close>. A dictionary is kept as an association
  list in insertion order; a float is kept as mantissa and binary exponent, of which only
  the test against zero is ever used.
\<close>

datatype json =
    JNull
  | JBool bool
  | JInt int
  | JFloat int int
  | JStr string
  | JList "json list"
  | JDict "(string \<times> json) list"

text \<open>\<^verbatim>\<open>d.get(k, default)\<close> and \<^verbatim>\<open>k in d\<close> on a Python dictionary.\<close>

definition dict_get :: "(string \<times> json) list \<Rightarrow> string \<Rightarrow> json \<Rightarrow> json" where
  "dict_get d k dflt = (case map_of d k of Some v \<Rightarrow> v | None \<Rightarrow> dflt)"

definition dict_has :: "(string \<times> json) list \<Rightarrow> string \<Rightarrow> bool" where
  "dict_has d k = (map_of d k \<noteq> None)"

text \<open>Python truthiness, as used by \<^verbatim>\<open>if x\<close> and \<^verbatim>\<open>not x\<close>.\<close>

fun truthy :: "json \<Rightarrow> bool" where
  "truthy JNull = False"
| "truthy (JBool b) = b"
| "truthy (JInt i) = (i \<noteq> 0)"
| "truthy (JFloat m e) = (m \<noteq> 0)"
| "truthy (JStr s) = (s \<noteq> [])"
| "truthy (JList xs) = (xs \<noteq> [])"
| "truthy (JDict d) = (d \<noteq> [])"

text \<open>
  \<^verbatim>\<open>len(x)\<close> raises \<^verbatim>\<open>TypeError\<close> on numbers, booleans and \<^verbatim>\<open>None\<close>; iterating a
  string yields its characters and iterating a dictionary yields its keys.
\<close>

fun py_len :: "json \<Rightarrow> nat option" where
  "py_len (JStr s) = Some (length s)"
| "py_len (JList xs) = Some (length xs)"
| "py_len (JDict d) = Some (length d)"
| "py_len _ = None"

fun py_iter :: "json \<Rightarrow> json list" where
  "py_iter (JStr s) = map (\<lambda>c. JStr [c]) s"
| "py_iter (JList xs) = xs"
| "py_iter (JDict d) = map (\<lambda>kv. JStr (fst kv)) d"
| "py_iter _ = []"

section \<open>PKCE credential store\<close>

subsection \<open>The library functions used by \<^verbatim>\<open>generate_pkce_pair\<close>\<close>

text \<open>
  \<^verbatim>\<open>hashlib.sha256\<close> (FIPS 180-4) and \<^verbatim>\<open>base64.urlsafe_b64encode\<close> (RFC 4648, section 5)
  are library code. They are written out here so that a challenge can be computed: a byte is
  an \<open>int\<close> below 256, as in a Python \<^verbatim>\<open>bytes\<close> object, and a 32-bit word is an \<open>int\<close>
  reduced modulo \<open>2 ^ 32\<close> after every addition.
\<close>

type_synonym byte = int

definition K256 :: "int list" where
  "K256 =
     [1116352408, 1899447441, 3049323471, 3921009573, 961987163, 1508970993,
      2453635748, 2870763221, 3624381080, 310598401, 607225278, 1426881987,
      1925078388, 2162078206, 2614888103, 3248222580, 3835390401, 4022224774,
      264347078, 604807628, 770255983, 1249150122, 1555081692, 1996064986,
      2554220882, 2821834349, 2952996808, 3210313671, 3336571891, 3584528711,
      113926993, 338241895, 666307205, 773529912, 1294757372, 1396182291,
      1695183700, 1986661051, 2177026350, 2456956037, 2730485921, 2820302411,
      3259730800, 3345764771, 3516065817, 3600352804, 4094571909, 275423344,
      430227734, 506948616, 659060556, 883997877, 958139571, 1322822218,
      1537002063, 1747873779, 1955562222, 2024104815, 2227730452, 2361852424,
      2428436474, 2756734187, 3204031479, 3329325298]"

definition H256 :: "int list" where
  "H256 = [1779033703, 3144134277, 1013904242, 2773480762,
           1359893119, 2600822924, 528734635, 1541459225]"

definition add32 :: "int \<Rightarrow> int \<Rightarrow> int" where
  "add32 x y = (x + y) mod 2 ^ 32"

definition rotr :: "nat \<Rightarrow> int \<Rightarrow> int" where
  "rotr n x = x div 2 ^ n + (x mod 2 ^ n) * 2 ^ (32 - n)"

definition shr :: "nat \<Rightarrow> int \<Rightarrow> int" where
  "shr n x = x div 2 ^ n"

definition ch :: "int \<Rightarrow> int \<Rightarrow> int \<Rightarrow> int" where
  "ch x y z = (x AND y) XOR ((2 ^ 32 - 1 - x) AND z)"

definition maj :: "int \<Rightarrow> int \<Rightarrow> int \<Rightarrow> int" where
  "maj x y z = (x AND y) XOR (x AND z) XOR (y AND z)"

definition bsig0 :: "int \<Rightarrow> int" where
  "bsig0 x = rotr 2 x XOR rotr 13 x XOR rotr 22 x"

definition bsig1 :: "int \<Rightarrow> int" where
  "bsig1 x = rotr 6 x XOR rotr 11 x XOR rotr 25 x"

definition ssig0 :: "int \<Rightarrow> int" where
  "ssig0 x = rotr 7 x XOR rotr 18 x XOR shr 3 x"

definition ssig1 :: "int \<Rightarrow> int" where
  "ssig1 x = rotr 17 x XOR rotr 19 x XOR shr 10 x"

text \<open>The message schedule: sixteen words of the block, extended one word at a time.\<close>

fun schedule :: "nat \<Rightarrow> int list \<Rightarrow> int list" where
  "schedule 0 w = w"
| "schedule (Suc n) w =
     schedule n (w @ [add32 (add32 (ssig1 (w ! (length w - 2))) (w ! (length w - 7)))
                        (add32 (ssig0 (w ! (length w - 15))) (w ! (length w - 16)))])"

fun round256 :: "int \<times> int \<Rightarrow> int list \<Rightarrow> int list" where
  "round256 (k, w) [a, b, c, d, e, f, g, h] =
     (let t1 = add32 (add32 (add32 h (bsig1 e)) (add32 (ch e f g) k)) w;
          t2 = add32 (bsig0 a) (maj a b c)
      in [add32 t1 t2, a, b, c, add32 d t1, e, f, g])"
| "round256 _ s = s"

definition compress :: "int list \<Rightarrow> int list \<Rightarrow> int list" where
  "compress hs w16 = map2 add32 hs (fold round256 (zip K256 (schedule 48 w16)) hs)"

fun be_words :: "byte list \<Rightarrow> int list" where
  "be_words (a # b # c # d # bs) = (((a * 256 + b) * 256 + c) * 256 + d) # be_words bs"
| "be_words _ = []"

fun be_bytes :: "nat \<Rightarrow> int \<Rightarrow> byte list" where
  "be_bytes 0 v = []"
| "be_bytes (Suc n) v = be_bytes n (v div 256) @ [v mod 256]"

definition pad256 :: "byte list \<Rightarrow> byte list" where
  "pad256 m = m @ [128] @ replicate (nat ((55 - int (length m)) mod 64)) 0
                @ be_bytes 8 (8 * int (length m))"

fun blocks :: "int list \<Rightarrow> int list list" where
  "blocks [] = []"
| "blocks ws = take 16 ws # blocks (drop 16 ws)"

fun sha_blocks :: "int list \<Rightarrow> int list list \<Rightarrow> int list" where
  "sha_blocks hs [] = hs"
| "sha_blocks hs (b # bs) = sha_blocks (compress hs b) bs"

definition sha256 :: "byte list \<Rightarrow> byte list" where
  "sha256 m = concat (map (be_bytes 4) (sha_blocks H256 (blocks (be_words (pad256 m)))))"

definition b64_alphabet :: string where
  "b64_alphabet = ''ABCDEFGHIJKLMNOPQRSTUVWXYZabcdefghijklmnopqrstuvwxyz0123456789-_''"

definition sextet :: "int \<Rightarrow> char" where
  "sextet v = b64_alphabet ! nat (v mod 64)"

fun urlsafe_b64encode :: "byte list \<Rightarrow> string" where
  "urlsafe_b64encode (a # b # c # rest) =
     [sextet (a div 4), sextet (a * 16 + b div 16), sextet (b * 4 + c div 64), sextet c]
       @ urlsafe_b64encode rest"
| "urlsafe_b64encode [a, b] =
     [sextet (a div 4), sextet (a * 16 + b div 16), sextet (b * 4), CHR ''='']"
| "urlsafe_b64encode [a] = [sextet (a div 4), sextet (a * 16), CHR ''='', CHR ''='']"
| "urlsafe_b64encode [] = []"

text \<open>\<^verbatim>\<open>s.rstrip(c)\<close> for a single character, and \<^verbatim>\<open>s.encode()\<close> on a string of bytes.\<close>

definition rstrip :: "char \<Rightarrow> string \<Rightarrow> string" where
  "rstrip c s = rev (dropWhile (\<lambda>x. x = c) (rev s))"

definition encode :: "string \<Rightarrow> byte list" where
  "encode s = map of_char s"

subsection \<open>Verifier and challenge\<close>

text \<open>
  \<^verbatim>\<open>generate_pkce_pair\<close> draws its verifier from \<^verbatim>\<open>secrets.token_urlsafe(32)\<close>; the drawn
  string is the argument here, everything after the draw is the source's expression.
\<close>

definition generate_pkce_pair :: "string \<Rightarrow> string \<times> string" where
  "generate_pkce_pair token_urlsafe =
     (let code_verifier = token_urlsafe;
          code_challenge = rstrip CHR ''='' (urlsafe_b64encode (sha256 (encode code_verifier)))
      in (code_verifier, code_challenge))"

text \<open>
  The two files in the home directory and the files written to the working directory. A
  file that exists holds either a parsed JSON value or text that \<^verbatim>\<open>json.load\<close> rejects.
\<close>

datatype stored = Absent | Garbled | Stored json

datatype out_file = CsvFile "json list list" | JsonFile "json list"

record world =
  pkce_file :: stored
  tokens_file :: stored
  outputs :: "string \<rightharpoonup> out_file"

datatype exn = RequestException | TypeError | AttributeError | IndexError | SystemExit nat

definition save_pkce :: "string \<Rightarrow> world \<Rightarrow> world" where
  "save_pkce code_verifier w = w\<lparr>pkce_file := Stored (JDict [(''code_verifier'', JStr code_verifier)])\<rparr>"

definition load_pkce :: "world \<Rightarrow> exn + json" where
  "load_pkce w =
     (case pkce_file w of
        Stored (JDict d) \<Rightarrow> Inr (dict_get d ''code_verifier'' JNull)
      | Stored _ \<Rightarrow> Inl AttributeError
      | _ \<Rightarrow> Inr JNull)"

definition clear_pkce :: "world \<Rightarrow> world" where
  "clear_pkce w = w\<lparr>pkce_file := Absent\<rparr>"

section \<open>OAuth client\<close>

definition AUTH_BASE_URL :: string where
  "AUTH_BASE_URL = ''https://auth.tesla.com/oauth2/v3''"

definition CLIENT_ID :: string where
  "CLIENT_ID = ''ownerapi''"

definition REDIRECT_URI :: string where
  "REDIRECT_URI = ''https://auth.tesla.com/void/callback''"

definition SCOPES :: string where
  "SCOPES = ''openid email offline_access phone''"

text \<open>
  A call of \<^verbatim>\<open>requests.post\<close> or \<^verbatim>\<open>requests.get\<close> either raises (connection refused,
  timeout, ...) or gives a response, of which the program reads the status code and the
  parsed body. The token endpoint is a function of the posted form; the ride API is a
  function of the URL, the bearer token and the page number.
\<close>

datatype http_result = Response nat json | NetworkFault

type_synonym form = "(string \<times> json) list"

type_synonym get_request = "string \<times> json \<times> nat"

text \<open>
  What one run of the program is given from outside: its arguments, the two remote
  services, \<^verbatim>\<open>parse_qs(urlparse(url).query)\<close>, the clock readings, the random strings, and
  the number of pages after which the model stops following the pagination loop.
\<close>

record env =
  argv :: "string list"
  token_endpoint :: "form \<Rightarrow> http_result"
  ride_api :: "get_request \<Rightarrow> http_result"
  parse_qs :: "string \<Rightarrow> (string \<times> string list) list"
  now_isoformat :: string
  now_strftime :: string
  random_verifier :: string
  random_state :: string
  max_pages :: nat

text \<open>
  \<^verbatim>\<open>start_auth\<close>: the verifier is saved, and the query parameters of the printed
  authorisation URL are returned.
\<close>

definition start_auth :: "env \<Rightarrow> world \<Rightarrow> world \<times> (string \<times> string) list" where
  "start_auth ev w =
     (let (code_verifier, code_challenge) = generate_pkce_pair (random_verifier ev);
          w1 = save_pkce code_verifier w;
          auth_params = [(''response_type'', ''code''),
                         (''client_id'', CLIENT_ID),
                         (''redirect_uri'', REDIRECT_URI),
                         (''scope'', SCOPES),
                         (''state'', random_state ev),
                         (''code_challenge'', code_challenge),
                         (''code_challenge_method'', ''S256'')]
      in (w1, auth_params))"

text \<open>
  \<^verbatim>\<open>complete_auth\<close>. \<^verbatim>\<open>sys.exit(1)\<close> is the exception \<open>SystemExit 1\<close>; a fault of the POST
  propagates before \<^verbatim>\<open>clear_pkce\<close> is reached.
\<close>

definition complete_auth :: "env \<Rightarrow> string \<Rightarrow> world \<Rightarrow> world \<times> (exn + json \<times> json)" where
  "complete_auth ev callback_url w =
     (case load_pkce w of
        Inl e \<Rightarrow> (w, Inl e)
      | Inr code_verifier \<Rightarrow>
          if \<not> truthy code_verifier then (w, Inl (SystemExit 1))
          else
            (case map_of (parse_qs ev callback_url) ''code'' of
               None \<Rightarrow> (w, Inl (SystemExit 1))
             | Some [] \<Rightarrow> (w, Inl IndexError)
             | Some (auth_code # _) \<Rightarrow>
                 (let token_data = [(''grant_type'', JStr ''authorization_code''),
                                    (''client_id'', JStr CLIENT_ID),
                                    (''code'', JStr auth_code),
                                    (''code_verifier'', code_verifier),
                                    (''redirect_uri'', JStr REDIRECT_URI)]
                  in case token_endpoint ev token_data of
                       NetworkFault \<Rightarrow> (w, Inl RequestException)
                     | Response status_code tokens \<Rightarrow>
                         (let w1 = clear_pkce w
                          in if status_code \<noteq> 200 then (w1, Inl (SystemExit 1))
                             else (case tokens of
                                     JDict d \<Rightarrow> (w1, Inr (dict_get d ''access_token'' JNull,
                                                          dict_get d ''refresh_token'' JNull))
                                   | _ \<Rightarrow> (w1, Inl AttributeError))))))"

definition authenticate_with_refresh_token :: "env \<Rightarrow> json \<Rightarrow> exn + json \<times> json" where
  "authenticate_with_refresh_token ev refresh_token =
     (let token_data = [(''grant_type'', JStr ''refresh_token''),
                        (''client_id'', JStr CLIENT_ID),
                        (''refresh_token'', refresh_token)]
      in case token_endpoint ev token_data of
           NetworkFault \<Rightarrow> Inl RequestException
         | Response status_code tokens \<Rightarrow>
             if status_code \<noteq> 200 then Inr (JNull, JNull)
             else (case tokens of
                     JDict d \<Rightarrow> Inr (dict_get d ''access_token'' JNull,
                                     dict_get d ''refresh_token'' JNull)
                   | _ \<Rightarrow> Inl AttributeError))"

section \<open>Ride history fetcher\<close>

text \<open>
  The response-shape sniffing of \<^verbatim>\<open>fetch_all_rides\<close> (the \<^verbatim>\<open>if/elif/else\<close> on
  \<^verbatim>\<open>data\<close>), kept as a function of the payload.
\<close>

fun extract_rides :: "json \<Rightarrow> json" where
  "extract_rides (JDict d) =
     (case map_of d ''data'' of
        Some (JDict dd) \<Rightarrow> dict_get dd ''rides'' (JList [])
      | _ \<Rightarrow> dict_get d ''rides'' (dict_get d ''data'' (JList [])))"
| "extract_rides (JList xs) = JList xs"
| "extract_rides _ = JList []"

type_synonym endpoint = "string \<times> string"

definition API_ENDPOINTS :: "endpoint list" where
  "API_ENDPOINTS =
     [(''https://ownership.tesla.com'', ''/mobile-app/ride/history''),
      (''https://akamai-apigateway-charging-ownership.tesla.com'', ''/mobile-app/ride/history'')]"

definition PAGE_SIZE :: nat where
  "PAGE_SIZE = 100"

definition url_of :: "endpoint \<Rightarrow> string" where
  "url_of ep = fst ep @ snd ep"

text \<open>
  The \<^verbatim>\<open>for\<close> loop of \<^verbatim>\<open>get_ride_history\<close> over the candidates: a candidate that raises
  or answers anything but 200 is passed over. The result carries the requests issued, in
  order, then \<^verbatim>\<open>data\<close> and \<^verbatim>\<open>working_endpoint\<close> (\<^verbatim>\<open>None, None\<close> when no candidate is left).
\<close>

fun probe :: "(get_request \<Rightarrow> http_result) \<Rightarrow> json \<Rightarrow> nat \<Rightarrow> endpoint list
               \<Rightarrow> get_request list \<times> json \<times> endpoint option" where
  "probe net access_token page [] = ([], JNull, None)"
| "probe net access_token page (ep # eps) =
     (case net (url_of ep, access_token, page) of
        Response status_code body \<Rightarrow>
          if status_code = 200 then ([(url_of ep, access_token, page)], body, Some ep)
          else (case probe net access_token page eps of
                  (reqs, r) \<Rightarrow> ((url_of ep, access_token, page) # reqs, r))
      | NetworkFault \<Rightarrow>
          (case probe net access_token page eps of
             (reqs, r) \<Rightarrow> ((url_of ep, access_token, page) # reqs, r)))"

definition get_ride_history :: "(get_request \<Rightarrow> http_result) \<Rightarrow> json \<Rightarrow> nat \<Rightarrow> endpoint option
               \<Rightarrow> get_request list \<times> (exn + json \<times> endpoint option)" where
  "get_ride_history net access_token page working_endpoint =
     (case working_endpoint of
        Some ep \<Rightarrow>
          (case net (url_of ep, access_token, page) of
             NetworkFault \<Rightarrow> ([(url_of ep, access_token, page)], Inl RequestException)
           | Response status_code body \<Rightarrow>
               if status_code = 401 then ([(url_of ep, access_token, page)], Inr (JNull, None))
               else if status_code \<noteq> 200 then ([(url_of ep, access_token, page)], Inr (JNull, None))
               else ([(url_of ep, access_token, page)], Inr (body, Some ep)))
      | None \<Rightarrow>
          (case probe net access_token page API_ENDPOINTS of
             (reqs, r) \<Rightarrow> (reqs, Inr r)))"

text \<open>
  The \<^verbatim>\<open>while True\<close> loop of \<^verbatim>\<open>fetch_all_rides\<close>, one iteration per unit of fuel. The
  result is the list of requests issued and, when the loop was left within the fuel, what
  the function returned or raised; \<open>None\<close> says that the loop was still running.
\<close>

fun fetch_loop :: "nat \<Rightarrow> (get_request \<Rightarrow> http_result) \<Rightarrow> json \<Rightarrow> json list \<Rightarrow> nat
               \<Rightarrow> endpoint option \<Rightarrow> get_request list \<times> (exn + json list) option" where
  "fetch_loop 0 net access_token all_rides page working_endpoint = ([], None)"
| "fetch_loop (Suc fuel) net access_token all_rides page working_endpoint =
     (case get_ride_history net access_token page working_endpoint of
        (reqs, Inl e) \<Rightarrow> (reqs, Some (Inl e))
      | (reqs, Inr (data, working_endpoint')) \<Rightarrow>
          if data = JNull then (reqs, Some (Inr all_rides))
          else
            (let rides = extract_rides data
             in if \<not> truthy rides then (reqs, Some (Inr all_rides))
                else (case py_len rides of
                        None \<Rightarrow> (reqs, Some (Inl TypeError))
                      | Some n \<Rightarrow>
                          if n < PAGE_SIZE then (reqs, Some (Inr (all_rides @ py_iter rides)))
                          else (case fetch_loop fuel net access_token (all_rides @ py_iter rides)
                                       (page + 1) working_endpoint' of
                                  (later, r) \<Rightarrow> (reqs @ later, r)))))"

definition fetch_all_rides :: "nat \<Rightarrow> (get_request \<Rightarrow> http_result) \<Rightarrow> json
               \<Rightarrow> get_request list \<times> (exn + json list) option" where
  "fetch_all_rides fuel net access_token = fetch_loop fuel net access_token [] 1 None"

section \<open>Exporter\<close>

definition fieldnames :: "string list" where
  "fieldnames =
     [''rideIntegerId'', ''rideId'', ''state'', ''status'', ''rideRequestedAt'',
      ''rideStartedAt'', ''rideCompletedAt'', ''timestamp'', ''pickupLocationName'',
      ''pickupLocationLatitude'', ''pickupLocationLongitude'', ''pickupLocationTimezone'',
      ''dropoffLocationName'', ''dropoffLocationLatitude'', ''dropoffLocationLongitude'',
      ''dropoffLocationTimezone'', ''dropoffLocationAddressId'', ''totalDistanceMiles'',
      ''driveDistanceMiles'', ''billedDistanceMiles'', ''totalDurationSeconds'',
      ''driveDurationSeconds'', ''totalDue'', ''totalDueTaxExcl'', ''estimatedPrice'',
      ''estimatedPriceCurrencyCode'', ''currencyCode'', ''rideFeeStatus'',
      ''rideFeeProcessFlag'', ''hasAdhocFee'', ''vin'', ''licensePlate'', ''vehicleModel'',
      ''countryCode'', ''priceBookGuid'', ''quoteId'', ''txid'', ''route'', ''routeImageUrl'',
      ''rideEta'', ''fleetCongestionPercent'', ''isValid'', ''invalidReason'',
      ''billOverrideReason'', ''disputeReason'', ''disputeComment'', ''billingUserId'',
      ''billingUserUuid'', ''billingUserAddressId'', ''riderSsoId'']"

text \<open>
  One row of the CSV file is kept as the list of cell values handed to the \<^verbatim>\<open>csv\<close> writer,
  in column order. \<^verbatim>\<open>ride.get\<close> exists on dictionaries only.
\<close>

fun csv_row :: "json \<Rightarrow> exn + json list" where
  "csv_row (JDict ride) = Inr (map (\<lambda>field. dict_get ride field (JStr [])) fieldnames)"
| "csv_row _ = Inl AttributeError"

text \<open>The \<^verbatim>\<open>for ride in rides\<close> loop: rows are written until a record raises.\<close>

fun csv_rows :: "json list \<Rightarrow> json list list \<times> exn option" where
  "csv_rows [] = ([], None)"
| "csv_rows (ride # rides) =
     (case csv_row ride of
        Inl e \<Rightarrow> ([], Some e)
      | Inr row \<Rightarrow> (case csv_rows rides of (rows, r) \<Rightarrow> (row # rows, r)))"

definition export_to_csv :: "json list \<Rightarrow> string \<Rightarrow> world \<Rightarrow> world \<times> exn option" where
  "export_to_csv rides filename w =
     (if rides = [] then (w, None)
      else (case csv_rows rides of
              (rows, r) \<Rightarrow>
                (w\<lparr>outputs := (outputs w)(filename \<mapsto> CsvFile (map JStr fieldnames # rows))\<rparr>, r)))"


section \<open>Command-line orchestrator\<close>

definition save_tokens :: "env \<Rightarrow> json \<Rightarrow> json \<Rightarrow> world \<Rightarrow> world" where
  "save_tokens ev access_token refresh_token w =
     w\<lparr>tokens_file := Stored (JDict [(''access_token'', access_token),
                                     (''refresh_token'', refresh_token),
                                     (''saved_at'', JStr (now_isoformat ev))])\<rparr>"

definition load_tokens :: "world \<Rightarrow> exn + json \<times> json" where
  "load_tokens w =
     (case tokens_file w of
        Stored (JDict d) \<Rightarrow> Inr (dict_get d ''access_token'' JNull, dict_get d ''refresh_token'' JNull)
      | Stored _ \<Rightarrow> Inl AttributeError
      | _ \<Rightarrow> Inr (JNull, JNull))"

text \<open>How a run ends: normally, with an exception, or still inside the pagination loop.\<close>

datatype outcome = Finished | Raised exn | StillFetching

definition fetch_and_export :: "env \<Rightarrow> json \<Rightarrow> json \<Rightarrow> world \<Rightarrow> world \<times> outcome" where
  "fetch_and_export ev access_token refresh_token w =
     (case snd (fetch_all_rides (max_pages ev) (ride_api ev) access_token) of
        None \<Rightarrow> (w, StillFetching)
      | Some (Inl e) \<Rightarrow> (w, Raised e)
      | Some (Inr rides) \<Rightarrow>
          if rides \<noteq> [] then
            (let csv_filename = ''robotaxi_history_'' @ now_strftime ev @ ''.csv'';
                 json_filename = ''robotaxi_history_'' @ now_strftime ev @ ''.json''
             in case export_to_csv rides csv_filename w of
                  (w1, Some e) \<Rightarrow> (w1, Raised e)
                | (w1, None) \<Rightarrow>
                    (w1\<lparr>outputs := (outputs w1)(json_filename \<mapsto> JsonFile rides)\<rparr>, Finished))
          else (w, Finished))"

text \<open>
  The second half of \<^verbatim>\<open>main\<close>, reached when the refresh branch was not taken or did not
  return: the \<^verbatim>\<open>if callback_url:\<close> block, then \<^verbatim>\<open>start_auth()\<close>.
\<close>

definition main_login :: "env \<Rightarrow> string option \<Rightarrow> world \<Rightarrow> world \<times> outcome" where
  "main_login ev callback_url w =
     (case callback_url of
        Some url \<Rightarrow>
          if url \<noteq> [] then
            (case complete_auth ev url w of
               (w1, Inl e) \<Rightarrow> (w1, Raised e)
             | (w1, Inr (access_token, refresh_token)) \<Rightarrow>
                 fetch_and_export ev access_token refresh_token
                   (if truthy refresh_token then save_tokens ev access_token refresh_token w1
                    else w1))
          else (fst (start_auth ev w), Finished)
      | None \<Rightarrow> (fst (start_auth ev w), Finished))"

definition main :: "env \<Rightarrow> world \<Rightarrow> world \<times> outcome" where
  "main ev w =
     (let callback_url = (case argv ev of _ # a # _ \<Rightarrow> Some a | _ \<Rightarrow> None)
      in case load_tokens w of
           Inl e \<Rightarrow> (w, Raised e)
         | Inr (access_token, refresh_token) \<Rightarrow>
             if truthy access_token \<and> truthy refresh_token
                \<and> \<not> (case callback_url of Some url \<Rightarrow> url \<noteq> [] | None \<Rightarrow> False)
             then
               (case authenticate_with_refresh_token ev refresh_token of
                  Inl e \<Rightarrow> (w, Raised e)
                | Inr (new_access, new_refresh) \<Rightarrow>
                    if truthy new_access then
                      (let refresh_token' = (if truthy new_refresh then new_refresh
                                             else refresh_token)
                       in fetch_and_export ev new_access refresh_token'
                            (save_tokens ev new_access refresh_token' w))
                    else main_login ev callback_url w)
             else main_login ev callback_url w)"

section \<open>Development proxy\<close>

text \<open>
  \<^verbatim>\<open>urlopen\<close> returns the body of a successful response, raises \<^verbatim>\<open>HTTPError\<close> with the
  status code of an unsuccessful one, or raises something else (\<^verbatim>\<open>URLError\<close>, a timeout)
  whose \<^verbatim>\<open>str\<close> is carried along. An upstream request is its URL and its
  \<^verbatim>\<open>Authorization\<close> header.
\<close>

datatype urlopen_result = Body string | HTTPError nat | OtherError string

datatype reply_body = Verbatim string | JsonDumps "(string \<times> string) list"

record reply =
  reply_status :: nat
  reply_headers :: "(string \<times> string) list"
  reply_body :: reply_body

text \<open>\<^verbatim>\<open>str\<close> of a non-negative integer, for the f-string of the error body.\<close>

fun str_nat :: "nat \<Rightarrow> string" where
  "str_nat n = (if n < 10 then [char_of (48 + n)]
                else str_nat (n div 10) @ [char_of (48 + n mod 10)])"

declare str_nat.simps [simp del]

text \<open>How the \<^verbatim>\<open>for url in endpoints\<close> loop is left.\<close>

datatype loop_exit = Replied reply | RaisedHTTPError nat | RaisedOther string | Exhausted

fun try_endpoints :: "(string \<times> string \<Rightarrow> urlopen_result) \<Rightarrow> string \<Rightarrow> string list
               \<Rightarrow> (string \<times> string) list \<times> loop_exit" where
  "try_endpoints urlopen auth_header [] = ([], Exhausted)"
| "try_endpoints urlopen auth_header (url # urls) =
     (case urlopen (url, auth_header) of
        Body data \<Rightarrow>
          ([(url, auth_header)],
           Replied \<lparr>reply_status = 200,
                    reply_headers = [(''Content-Type'', ''application/json''),
                                     (''Access-Control-Allow-Origin'', ''*'')],
                    reply_body = Verbatim data\<rparr>)
      | HTTPError code \<Rightarrow>
          if code = 401 then ([(url, auth_header)], RaisedHTTPError code)
          else (case try_endpoints urlopen auth_header urls of
                  (contacted, r) \<Rightarrow> ((url, auth_header) # contacted, r))
      | OtherError msg \<Rightarrow> ([(url, auth_header)], RaisedOther msg))"

text \<open>The local list \<^verbatim>\<open>endpoints\<close> of \<^verbatim>\<open>proxy_rides_request\<close>.\<close>

definition endpoints :: "string \<Rightarrow> string list" where
  "endpoints query =
     [''https://ownership.tesla.com/mobile-app/ride/history?'' @ query,
      ''https://akamai-apigateway-charging-ownership.tesla.com/mobile-app/ride/history?'' @ query]"

text \<open>
  \<^verbatim>\<open>ProxyHandler.proxy_rides_request\<close>, as a function of \<^verbatim>\<open>urlopen\<close>, the incoming
  \<^verbatim>\<open>Authorization\<close> header and the query string \<^verbatim>\<open>urlparse(self.path).query\<close>. It gives the
  upstream requests made and the reply written to the client.
\<close>

definition proxy_rides_request :: "(string \<times> string \<Rightarrow> urlopen_result) \<Rightarrow> string \<Rightarrow> string
               \<Rightarrow> (string \<times> string) list \<times> reply" where
  "proxy_rides_request urlopen auth_header query =
     (case try_endpoints urlopen auth_header (endpoints query) of
        (contacted, Replied r) \<Rightarrow> (contacted, r)
      | (contacted, Exhausted) \<Rightarrow>
             (contacted,
              \<lparr>reply_status = 502,
               reply_headers = [(''Content-Type'', ''application/json'')],
               reply_body = JsonDumps [(''error'', ''No working endpoint'')]\<rparr>)
         | (contacted, RaisedHTTPError code) \<Rightarrow>
             (contacted,
              \<lparr>reply_status = code,
               reply_headers = [(''Content-Type'', ''application/json''),
                                (''Access-Control-Allow-Origin'', ''*'')],
               reply_body = JsonDumps [(''error'', ''API error: '' @ str_nat code)]\<rparr>)
         | (contacted, RaisedOther msg) \<Rightarrow>
             (contacted,
              \<lparr>reply_status = 500,
               reply_headers = [(''Content-Type'', ''application/json'')],
               reply_body = JsonDumps [(''error'', msg)]\<rparr>))"

section \<open>The extraction order as the specification words it\<close>

text \<open>
  The specification describes the response-shape sniffing as an ordered list of
  strategies, each of which either does not match or yields the ride list, the first match
  winning. The four strategies, in the order of the specification: the nested one applies
  to a dictionary whose \<^verbatim>\<open>data\<close> is a dictionary and yields its \<^verbatim>\<open>rides\<close> (empty when there
  is none); the two top-level ones yield a top-level \<^verbatim>\<open>rides\<close> array and a top-level
  \<^verbatim>\<open>data\<close> array; the last one applies to a payload that is itself a list.
\<close>

definition nested_data_rides :: "json \<Rightarrow> json option" where
  "nested_data_rides payload =
     (case payload of
        JDict d \<Rightarrow> (case map_of d ''data'' of
                      Some (JDict dd) \<Rightarrow> Some (dict_get dd ''rides'' (JList []))
                    | _ \<Rightarrow> None)
      | _ \<Rightarrow> None)"

definition top_level_rides :: "json \<Rightarrow> json option" where
  "top_level_rides payload =
     (case payload of
        JDict d \<Rightarrow> (case map_of d ''rides'' of Some (JList xs) \<Rightarrow> Some (JList xs) | _ \<Rightarrow> None)
      | _ \<Rightarrow> None)"

definition top_level_data :: "json \<Rightarrow> json option" where
  "top_level_data payload =
     (case payload of
        JDict d \<Rightarrow> (case map_of d ''data'' of Some (JList xs) \<Rightarrow> Some (JList xs) | _ \<Rightarrow> None)
      | _ \<Rightarrow> None)"

definition whole_payload :: "json \<Rightarrow> json option" where
  "whole_payload payload = (case payload of JList xs \<Rightarrow> Some (JList xs) | _ \<Rightarrow> None)"

fun first_match :: "('a \<Rightarrow> 'b option) list \<Rightarrow> 'a \<Rightarrow> 'b option" where
  "first_match [] x = None"
| "first_match (strategy # strategies) x =
     (case strategy x of Some y \<Rightarrow> Some y | None \<Rightarrow> first_match strategies x)"

definition extract_by_strategies :: "json \<Rightarrow> json" where
  "extract_by_strategies payload =
     (case first_match [nested_data_rides, top_level_rides, top_level_data, whole_payload] payload of
        Some rides \<Rightarrow> rides
      | None \<Rightarrow> JList [])"

text \<open>
  The two top-level strategies read by key: they apply to a dictionary that has the key and
  yield the value stored under it, whatever its type.
\<close>

definition top_level_rides_value :: "json \<Rightarrow> json option" where
  "top_level_rides_value payload = (case payload of JDict d \<Rightarrow> map_of d ''rides'' | _ \<Rightarrow> None)"

definition top_level_data_value :: "json \<Rightarrow> json option" where
  "top_level_data_value payload = (case payload of JDict d \<Rightarrow> map_of d ''data'' | _ \<Rightarrow> None)"

definition extract_by_key :: "json \<Rightarrow> json" where
  "extract_by_key payload =
     (case first_match [nested_data_rides, top_level_rides_value, top_level_data_value,
                        whole_payload] payload of
        Some rides \<Rightarrow> rides
      | None \<Rightarrow> JList [])"

section \<open>Test doubles\<close>

text \<open>
  A fake ride API that serves the given pages under every URL, in the response format of
  the real service, and answers 404 beyond the last page.
\<close>

definition page_payload :: "json list list \<Rightarrow> nat \<Rightarrow> json" where
  "page_payload pages page =
     JDict [(''code'', JInt 200), (''data'', JDict [(''rides'', JList (pages ! (page - 1)))])]"

definition paged_endpoint :: "json list list \<Rightarrow> get_request \<Rightarrow> http_result" where
  "paged_endpoint pages rq =
     (case rq of (url, tok, page) \<Rightarrow>
        if 1 \<le> page \<and> page \<le> length pages then Response 200 (page_payload pages page)
        else Response 404 JNull)"

definition ride_stub :: "string \<Rightarrow> json" where
  "ride_stub ident = JDict [(''rideId'', JStr ident), (''state'', JStr ''COMPLETED'')]"

text \<open>
  A ride API that answers every request with the same payload, and a payload whose
  top-level \<^verbatim>\<open>rides\<close> is \<^verbatim>\<open>null\<close> while its top-level \<^verbatim>\<open>data\<close> is an array of one record.
\<close>

definition constant_endpoint :: "json \<Rightarrow> get_request \<Rightarrow> http_result" where
  "constant_endpoint payload rq = Response 200 payload"

definition null_rides_payload :: json where
  "null_rides_payload = JDict [(''rides'', JNull), (''data'', JList [ride_stub ''a''])]"

text \<open>The same service once the bearer token has expired, from page \<open>k\<close> on.\<close>

definition expired_from :: "nat \<Rightarrow> (get_request \<Rightarrow> http_result) \<Rightarrow> get_request \<Rightarrow> http_result" where
  "expired_from k net rq =
     (if k \<le> snd (snd rq) then Response 401 (JDict [(''error'', JStr ''invalid bearer token'')])
      else net rq)"

text \<open>The same service when the first candidate host cannot be reached.\<close>

definition without_first_candidate :: "(get_request \<Rightarrow> http_result) \<Rightarrow> get_request \<Rightarrow> http_result" where
  "without_first_candidate net rq =
     (if fst rq = url_of (API_ENDPOINTS ! 0) then NetworkFault else net rq)"

text \<open>An empty home directory and working directory.\<close>

definition initial_world :: world where
  "initial_world = \<lparr>pkce_file = Absent, tokens_file = Absent, outputs = Map.empty\<rparr>"

text \<open>
  A ride record with three of the known fields, given out of column order, and one field
  that is not a column.
\<close>

definition three_field_ride :: json where
  "three_field_ride =
     JDict [(''state'', JStr ''COMPLETED''), (''rideIntegerId'', JInt 7), (''rideId'', JStr ''r-7''),
            (''surgeMultiplier'', JInt 2)]"

text \<open>
  A callback URL with what \<^verbatim>\<open>parse_qs\<close> makes of its query, a token endpoint that answers
  every form with the same status and body, and a run environment built from them.
\<close>

definition callback_example :: string where
  "callback_example = ''https://auth.tesla.com/void/callback?code=AUTHCODE&state=xyz''"

definition parse_qs_example :: "string \<Rightarrow> (string \<times> string list) list" where
  "parse_qs_example url =
     (if url = callback_example then [(''code'', [''AUTHCODE'']), (''state'', [''xyz''])] else [])"

definition token_service :: "nat \<Rightarrow> json \<Rightarrow> form \<Rightarrow> http_result" where
  "token_service status_code body token_data = Response status_code body"

definition example_env :: "(form \<Rightarrow> http_result) \<Rightarrow> string list \<Rightarrow> env" where
  "example_env service args =
     \<lparr>argv = ''robotaxi_history.py'' # args,
      token_endpoint = service,
      ride_api = paged_endpoint [replicate 2 (ride_stub ''a'')],
      parse_qs = parse_qs_example,
      now_isoformat = ''2025-07-01T12:00:00'',
      now_strftime = ''20250701_120000'',
      random_verifier = ''abc'',
      random_state = ''xyz'',
      max_pages = 10\<rparr>"

text \<open>
  An upstream seen by the proxy: the first host answers 503 and the second serves a body.
\<close>

definition upstream_example :: "string \<times> string \<Rightarrow> urlopen_result" where
  "upstream_example rq =
     (if fst rq = ''https://ownership.tesla.com/mobile-app/ride/history?pageNo=1'' then HTTPError 503
      else Body ''[]'')"

section \<open>Properties of the PKCE challenge\<close>

text \<open>
  Known answers of the hash function: the one-block message \<^verbatim>\<open>abc\<close> and the two-block
  message of FIPS 180-4.
\<close>

lemma sha256_abc:
  "sha256 (encode ''abc'') =
     [0xba, 0x78, 0x16, 0xbf, 0x8f, 0x01, 0xcf, 0xea, 0x41, 0x41, 0x40, 0xde, 0x5d, 0xae, 0x22, 0x23,
      0xb0, 0x03, 0x61, 0xa3, 0x96, 0x17, 0x7a, 0x9c, 0xb4, 0x10, 0xff, 0x61, 0xf2, 0x00, 0x15, 0xad]"
  by code_simp

lemma sha256_two_blocks:
  "sha256 (encode ''abcdbcdecdefdefgefghfghighijhijkijkljklmklmnlmnomnopnopq'') =
     [0x24, 0x8d, 0x6a, 0x61, 0xd2, 0x06, 0x38, 0xb8, 0xe5, 0xc0, 0x26, 0x93, 0x0c, 0x3e, 0x60, 0x39,
      0xa3, 0x3c, 0xe4, 0x59, 0x64, 0xff, 0x21, 0x67, 0xf6, 0xec, 0xed, 0xd4, 0x19, 0xdb, 0x06, 0xc1]"
  by code_simp

lemma challenge_abc:
  "rstrip CHR ''='' (urlsafe_b64encode (sha256 (encode ''abc'')))
     = ''ungWv48Bz-pBQUDeXa4iI7ADYaOWF3qctBD_YfIAFa0''"
  unfolding sha256_abc by code_simp

text \<open>
  C8. The challenge returned with a verifier is the URL-safe base64 encoding of the SHA-256
  digest of the verifier, with the trailing \<^verbatim>\<open>=\<close> padding removed: it is a function of the
  verifier alone. For the verifier \<^verbatim>\<open>abc\<close> it is
  \<^verbatim>\<open>ungWv48Bz-pBQUDeXa4iI7ADYaOWF3qctBD_YfIAFa0\<close>.
\<close>

theorem generate_pkce_pair_challenge:
  "generate_pkce_pair verifier
     = (verifier, rstrip CHR ''='' (urlsafe_b64encode (sha256 (encode verifier))))
   \<and> generate_pkce_pair ''abc'' = (''abc'', ''ungWv48Bz-pBQUDeXa4iI7ADYaOWF3qctBD_YfIAFa0'')"
  by (simp add: generate_pkce_pair_def challenge_abc)

section \<open>Properties of the ride history fetcher\<close>

text \<open>
  C5 (as amended: the top-level strategies go by the key, not by the value being an
  array). The ride list is taken from the payload by four strategies tried in the order
  nested \<^verbatim>\<open>data.rides\<close> (when the payload is a dictionary whose \<^verbatim>\<open>data\<close> is a dictionary),
  the value of a top-level \<^verbatim>\<open>rides\<close> key, the value of a top-level \<^verbatim>\<open>data\<close> key, the whole
  payload when it is a list: the result of the first strategy that matches is the result,
  whatever the later ones would give, and the list is empty when none matches.
\<close>

theorem extract_rides_first_match:
  "extract_rides payload = extract_by_key payload"
  by (cases payload)
     (auto simp: extract_by_key_def nested_data_rides_def top_level_rides_value_def
                 top_level_data_value_def whole_payload_def dict_get_def
           split: option.splits json.splits)

text \<open>
  A payload whose top-level \<^verbatim>\<open>rides\<close> is \<^verbatim>\<open>null\<close> and whose top-level \<^verbatim>\<open>data\<close> is an array:
  the strategies of the specification yield the \<^verbatim>\<open>data\<close> array, the code takes the
  \<^verbatim>\<open>null\<close> and \<^verbatim>\<open>fetch_all_rides\<close> returns no record.
\<close>

theorem extract_rides_array_counterexample:
  "extract_rides null_rides_payload = JNull
   \<and> extract_by_strategies null_rides_payload = JList [ride_stub ''a'']
   \<and> extract_rides null_rides_payload \<noteq> extract_by_strategies null_rides_payload
   \<and> fetch_all_rides 5 (constant_endpoint null_rides_payload) (JStr ''token'')
       = ([(url_of (API_ENDPOINTS ! 0), JStr ''token'', 1)], Some (Inr []))"
  by (simp add: null_rides_payload_def extract_by_strategies_def nested_data_rides_def
                top_level_rides_def top_level_data_def whole_payload_def dict_get_def
                fetch_all_rides_def get_ride_history_def API_ENDPOINTS_def
                constant_endpoint_def numeral_eq_Suc)

text \<open>
  Where every top-level \<^verbatim>\<open>rides\<close> or \<^verbatim>\<open>data\<close> value that is present is an array (or, for
  \<^verbatim>\<open>data\<close>, a dictionary), the code and the strategies of the specification agree.
\<close>

lemma extract_rides_agrees_on_arrays:
  assumes "\<forall>d v. payload = JDict d \<and> map_of d ''rides'' = Some v \<longrightarrow> (\<exists>xs. v = JList xs)"
    and "\<forall>d v. payload = JDict d \<and> map_of d ''data'' = Some v
           \<longrightarrow> (\<exists>xs. v = JList xs) \<or> (\<exists>dd. v = JDict dd)"
  shows "extract_rides payload = extract_by_strategies payload"
  using assms
  by (cases payload)
     (auto simp: extract_by_strategies_def nested_data_rides_def top_level_rides_def
                 top_level_data_def whole_payload_def dict_get_def
           split: option.splits json.splits)

subsection \<open>One iteration of the pagination loop\<close>

lemma extract_rides_JNull: "extract_rides JNull = JList []"
  by simp

lemma get_ride_history_pinned_ok:
  "net (url_of ep, tok, p) = Response 200 d \<Longrightarrow>
   get_ride_history net tok p (Some ep) = ([(url_of ep, tok, p)], Inr (d, Some ep))"
  by (simp add: get_ride_history_def)

lemma get_ride_history_pinned_status:
  "net (url_of ep, tok, p) = Response st b \<Longrightarrow> st \<noteq> 200 \<Longrightarrow>
   get_ride_history net tok p (Some ep) = ([(url_of ep, tok, p)], Inr (JNull, None))"
  by (simp add: get_ride_history_def)

lemma get_ride_history_pinned_fault:
  "net (url_of ep, tok, p) = NetworkFault \<Longrightarrow>
   get_ride_history net tok p (Some ep) = ([(url_of ep, tok, p)], Inl RequestException)"
  by (simp add: get_ride_history_def)

text \<open>One full page: the loop goes on with the next page and the endpoint it was given back.\<close>

lemma fetch_loop_full_page:
  assumes "get_ride_history net tok p wep = (reqs, Inr (d, wep'))"
    and "extract_rides d = JList rs" and "PAGE_SIZE \<le> length rs"
  shows "fetch_loop (Suc fuel) net tok acc p wep =
           (case fetch_loop fuel net tok (acc @ rs) (Suc p) wep' of
              (later, r) \<Rightarrow> (reqs @ later, r))"
proof -
  from assms(2,3) have "rs \<noteq> []" by (auto simp: PAGE_SIZE_def)
  with assms(2) have "d \<noteq> JNull" by auto
  with assms \<open>rs \<noteq> []\<close> show ?thesis by simp
qed

text \<open>One page that ends the pagination: a short list, possibly empty.\<close>

lemma fetch_loop_short_page:
  assumes "get_ride_history net tok p wep = (reqs, Inr (d, wep'))"
    and "extract_rides d = JList rs" and "length rs < PAGE_SIZE"
  shows "fetch_loop (Suc fuel) net tok acc p wep = (reqs, Some (Inr (acc @ rs)))"
  using assms by (cases "rs = []") auto

lemma fetch_loop_no_data:
  assumes "get_ride_history net tok p wep = (reqs, Inr (JNull, wep'))"
  shows "fetch_loop (Suc fuel) net tok acc p wep = (reqs, Some (Inr acc))"
  using assms by simp

lemma fetch_loop_raise:
  assumes "get_ride_history net tok p wep = (reqs, Inl e)"
  shows "fetch_loop (Suc fuel) net tok acc p wep = (reqs, Some (Inl e))"
  using assms by simp

text \<open>A run of full pages from a pinned endpoint only advances the loop.\<close>

lemma fetch_loop_full_run:
  assumes "\<forall>q. p \<le> q \<and> q < p + n \<longrightarrow>
             net (url_of ep, tok, q) = Response 200 (d q) \<and> extract_rides (d q) = JList (rs q)
             \<and> PAGE_SIZE \<le> length (rs q)"
  shows "fetch_loop (n + m) net tok acc p (Some ep) =
           (case fetch_loop m net tok (acc @ concat (map rs [p..<p + n])) (p + n) (Some ep) of
              (later, r) \<Rightarrow> (map (\<lambda>q. (url_of ep, tok, q)) [p..<p + n] @ later, r))"
  using assms
proof (induction n arbitrary: p acc)
  case 0
  then show ?case by (simp split: prod.splits)
next
  case (Suc n)
  have here: "net (url_of ep, tok, p) = Response 200 (d p)" "extract_rides (d p) = JList (rs p)"
    "PAGE_SIZE \<le> length (rs p)"
    using Suc.prems by auto
  have rest: "\<forall>q. Suc p \<le> q \<and> q < Suc p + n \<longrightarrow>
             net (url_of ep, tok, q) = Response 200 (d q) \<and> extract_rides (d q) = JList (rs q)
             \<and> PAGE_SIZE \<le> length (rs q)"
    using Suc.prems by auto
  have step: "fetch_loop (Suc (n + m)) net tok acc p (Some ep) =
           (case fetch_loop (n + m) net tok (acc @ rs p) (Suc p) (Some ep) of
              (later, r) \<Rightarrow> ([(url_of ep, tok, p)] @ later, r))"
    using fetch_loop_full_page [of net tok p "Some ep" "[(url_of ep, tok, p)]" "d p" "Some ep"
                                  "rs p" "n + m" acc]
          get_ride_history_pinned_ok [of net ep tok p "d p"] here
    by simp
  have split: "[p..<p + Suc n] = p # [Suc p..<Suc p + n]"
    by (simp add: upt_conv_Cons)
  show ?case
    unfolding split using step Suc.IH [OF rest, of "acc @ rs p"]
    by (simp split: prod.splits)
qed

lemma fetch_all_rides_first_page:
  assumes "get_ride_history net tok 1 None = (reqs, Inr (d, Some ep))"
    and "extract_rides d = JList rs" and "PAGE_SIZE \<le> length rs"
  shows "fetch_all_rides (Suc fuel) net tok =
           (case fetch_loop fuel net tok rs 2 (Some ep) of (later, r) \<Rightarrow> (reqs @ later, r))"
  using fetch_loop_full_page [OF assms, of fuel "[]"]
  by (simp add: fetch_all_rides_def numeral_2_eq_2)

lemma fetch_loop_0: "fetch_loop 0 net tok acc p wep = ([], None)"
  by simp

text \<open>Pages 1 to k answered, all before the k-th full: what the loop has done after k pages.\<close>

lemma fetch_all_rides_prefix:
  assumes first: "get_ride_history net tok 1 None = (reqs, Inr (d 1, Some ep))"
    and later: "\<forall>q. 2 \<le> q \<and> q < k \<longrightarrow> net (url_of ep, tok, q) = Response 200 (d q)"
    and lists: "\<forall>q. 1 \<le> q \<and> q < k \<longrightarrow> extract_rides (d q) = JList (rs q)"
    and full: "\<forall>q. 1 \<le> q \<and> q < k \<longrightarrow> PAGE_SIZE \<le> length (rs q)"
    and k: "2 \<le> k"
  shows "fetch_all_rides (k - 1 + m) net tok =
           (case fetch_loop m net tok (concat (map rs [1..<k])) k (Some ep) of
              (later, r) \<Rightarrow> (reqs @ map (\<lambda>q. (url_of ep, tok, q)) [2..<k] @ later, r))"
proof -
  obtain n where n: "k = 2 + n" using k by (metis le_Suc_ex)
  have one: "extract_rides (d 1) = JList (rs 1)" "PAGE_SIZE \<le> length (rs 1)"
    using lists full k by auto
  have run: "\<forall>q. 2 \<le> q \<and> q < 2 + n \<longrightarrow>
             net (url_of ep, tok, q) = Response 200 (d q) \<and> extract_rides (d q) = JList (rs q)
             \<and> PAGE_SIZE \<le> length (rs q)"
    using later lists full n by auto
  have a: "fetch_all_rides (Suc (n + m)) net tok =
           (case fetch_loop (n + m) net tok (rs 1) 2 (Some ep) of (later, r) \<Rightarrow> (reqs @ later, r))"
    by (rule fetch_all_rides_first_page [OF first one])
  have b: "fetch_loop (n + m) net tok (rs 1) 2 (Some ep) =
           (case fetch_loop m net tok (rs 1 @ concat (map rs [2..<2 + n])) (2 + n) (Some ep) of
              (later, r) \<Rightarrow> (map (\<lambda>q. (url_of ep, tok, q)) [2..<2 + n] @ later, r))"
    by (rule fetch_loop_full_run [OF run])
  obtain l0 r0 where x:
    "fetch_loop m net tok (rs 1 @ concat (map rs [2..<2 + n])) (2 + n) (Some ep) = (l0, r0)"
    by fastforce
  have b': "fetch_loop (n + m) net tok (rs 1) 2 (Some ep) =
              (map (\<lambda>q. (url_of ep, tok, q)) [2..<2 + n] @ l0, r0)"
    by (simp only: b x prod.case)
  have a': "fetch_all_rides (Suc (n + m)) net tok =
              (reqs @ map (\<lambda>q. (url_of ep, tok, q)) [2..<2 + n] @ l0, r0)"
    by (simp only: a b' prod.case)
  have c: "[1..<2 + n] = 1 # [2..<2 + n]"
    using upt_conv_Cons [of 1 "2 + n"] by (simp add: numeral_2_eq_2)
  have cc: "concat (map rs [1..<2 + n]) = rs 1 @ concat (map rs [2..<2 + n])"
    by (simp only: c list.map concat.simps)
  have e: "2 + n - 1 + m = Suc (n + m)" by simp
  show ?thesis
    by (simp only: n e a' cc x prod.case)
qed

lemma fetch_all_rides_still_running:
  assumes first: "get_ride_history net tok 1 None = (reqs, Inr (d 1, Some ep))"
    and later: "\<forall>q. 2 \<le> q \<and> q \<le> j \<longrightarrow> net (url_of ep, tok, q) = Response 200 (d q)"
    and lists: "\<forall>q. 1 \<le> q \<and> q \<le> j \<longrightarrow> extract_rides (d q) = JList (rs q)"
    and full: "\<forall>q. 1 \<le> q \<and> q \<le> j \<longrightarrow> PAGE_SIZE \<le> length (rs q)"
  shows "snd (fetch_all_rides j net tok) = None"
proof (cases "j = 0")
  case True
  then show ?thesis by (simp add: fetch_all_rides_def)
next
  case False
  then have k: "2 \<le> Suc j" by simp
  have "fetch_all_rides (Suc j - 1 + 0) net tok =
          (case fetch_loop 0 net tok (concat (map rs [1..<Suc j])) (Suc j) (Some ep) of
             (later, r) \<Rightarrow> (reqs @ map (\<lambda>q. (url_of ep, tok, q)) [2..<Suc j] @ later, r))"
    by (rule fetch_all_rides_prefix [where d = d and rs = rs])
       (use first later lists full k in auto)
  then show ?thesis by simp
qed

lemma fetch_all_rides_pages:
  assumes first: "get_ride_history net tok 1 None = (reqs, Inr (d 1, Some ep))"
    and later: "\<forall>q. 2 \<le> q \<and> q \<le> k \<longrightarrow> net (url_of ep, tok, q) = Response 200 (d q)"
    and lists: "\<forall>q. 1 \<le> q \<and> q \<le> k \<longrightarrow> extract_rides (d q) = JList (rs q)"
    and full: "\<forall>q. 1 \<le> q \<and> q < k \<longrightarrow> PAGE_SIZE \<le> length (rs q)"
    and k: "1 \<le> k"
    and short: "length (rs k) < PAGE_SIZE"
    and fuel: "k \<le> fuel"
  shows "fetch_all_rides fuel net tok =
           (reqs @ map (\<lambda>q. (url_of ep, tok, q)) [2..<Suc k],
            Some (Inr (concat (map rs [1..<Suc k]))))"
proof (cases "k = 1")
  case True
  obtain f where f: "fuel = Suc f" using fuel k by (cases fuel) auto
  have "extract_rides (d 1) = JList (rs 1)" "length (rs 1) < PAGE_SIZE"
    using lists short True by auto
  from fetch_loop_short_page [OF first this, of f "[]"] show ?thesis
    by (simp add: fetch_all_rides_def True f)
next
  case False
  then have k2: "2 \<le> k" using k by simp
  obtain m where m: "fuel = k - 1 + Suc m"
    using fuel k2 by (metis Suc_diff_1 add_Suc_right le_Suc_ex less_le_trans zero_less_numeral
        add_Suc_shift)
  have pre: "fetch_all_rides (k - 1 + Suc m) net tok =
          (case fetch_loop (Suc m) net tok (concat (map rs [1..<k])) k (Some ep) of
             (later, r) \<Rightarrow> (reqs @ map (\<lambda>q. (url_of ep, tok, q)) [2..<k] @ later, r))"
    by (rule fetch_all_rides_prefix [where d = d and rs = rs])
       (use first later lists full k2 in auto)
  have here: "net (url_of ep, tok, k) = Response 200 (d k)" "extract_rides (d k) = JList (rs k)"
    using later lists k2 by auto
  have last: "fetch_loop (Suc m) net tok (concat (map rs [1..<k])) k (Some ep) =
          ([(url_of ep, tok, k)], Some (Inr (concat (map rs [1..<k]) @ rs k)))"
    using fetch_loop_short_page [of net tok k "Some ep" "[(url_of ep, tok, k)]" "d k" "Some ep"
                                   "rs k" m "concat (map rs [1..<k])"]
          get_ride_history_pinned_ok [of net ep tok k "d k"] here short
    by simp
  have u1: "[2..<Suc k] = [2..<k] @ [k]" using k2 by simp
  have u2: "[1..<Suc k] = [1..<k] @ [k]" using k2 by simp
  show ?thesis
    unfolding m pre last u1 u2 by simp
qed

lemma fetch_all_rides_expired:
  assumes first: "get_ride_history net tok 1 None = (reqs, Inr (d 1, Some ep))"
    and later: "\<forall>q. 2 \<le> q \<and> q < k \<longrightarrow> net (url_of ep, tok, q) = Response 200 (d q)"
    and lists: "\<forall>q. 1 \<le> q \<and> q < k \<longrightarrow> extract_rides (d q) = JList (rs q)"
    and full: "\<forall>q. 1 \<le> q \<and> q < k \<longrightarrow> PAGE_SIZE \<le> length (rs q)"
    and k2: "2 \<le> k"
    and failed: "net (url_of ep, tok, k) = Response st body" "st \<noteq> 200"
    and fuel: "k \<le> fuel"
  shows "fetch_all_rides fuel net tok =
           (reqs @ map (\<lambda>q. (url_of ep, tok, q)) [2..<Suc k],
            Some (Inr (concat (map rs [1..<k]))))"
proof -
  obtain m where m: "fuel = k - 1 + Suc m"
    using fuel k2 by (metis Suc_diff_1 add_Suc_right le_Suc_ex less_le_trans zero_less_numeral
        add_Suc_shift)
  have pre: "fetch_all_rides (k - 1 + Suc m) net tok =
          (case fetch_loop (Suc m) net tok (concat (map rs [1..<k])) k (Some ep) of
             (later, r) \<Rightarrow> (reqs @ map (\<lambda>q. (url_of ep, tok, q)) [2..<k] @ later, r))"
    by (rule fetch_all_rides_prefix [where d = d and rs = rs])
       (use first later lists full k2 in auto)
  have last: "fetch_loop (Suc m) net tok (concat (map rs [1..<k])) k (Some ep) =
          ([(url_of ep, tok, k)], Some (Inr (concat (map rs [1..<k]))))"
    using fetch_loop_no_data [of net tok k "Some ep" "[(url_of ep, tok, k)]" None m]
          get_ride_history_pinned_status [of net ep tok k st body] failed
    by simp
  have u1: "[2..<Suc k] = [2..<k] @ [k]" using k2 by simp
  show ?thesis
    unfolding m pre last u1 by simp
qed

lemma first_page_nonempty:
  assumes "\<forall>q. 1 \<le> q \<and> q < k \<longrightarrow> PAGE_SIZE \<le> length (rs q)" and "2 \<le> k"
  shows "PAGE_SIZE \<le> length (concat (map rs [1..<k]))"
proof -
  have "[1..<k] = 1 # [2..<k]" using assms(2) upt_conv_Cons [of 1 k] by (simp add: numeral_2_eq_2)
  moreover have "PAGE_SIZE \<le> length (rs 1)" using assms by auto
  ultimately show ?thesis by simp
qed

text \<open>With a pinned endpoint the loop asks that endpoint only, one page after the other.\<close>

lemma fetch_loop_pinned_log:
  "\<exists>m. fst (fetch_loop fuel net tok acc p (Some ep)) = map (\<lambda>q. (url_of ep, tok, q)) [p..<p + m]"
proof (induction fuel arbitrary: acc p)
  case 0
  have "fst (fetch_loop 0 net tok acc p (Some ep)) = map (\<lambda>q. (url_of ep, tok, q)) [p..<p + 0]"
    by simp
  then show ?case by blast
next
  case (Suc fuel)
  let ?rq = "(url_of ep, tok, p)"
  let ?run = "fetch_loop (Suc fuel) net tok acc p (Some ep)"
  have one: "[?rq] = map (\<lambda>q. (url_of ep, tok, q)) [p..<p + 1]" by simp
  consider (stop) "fst ?run = [?rq]"
    | (go) acc' where "fst ?run = ?rq # fst (fetch_loop fuel net tok acc' (Suc p) (Some ep))"
  proof (cases "net ?rq")
    case NetworkFault
    then show ?thesis using stop by (simp add: get_ride_history_def)
  next
    case (Response st body)
    show ?thesis
    proof (cases "st = 200")
      case False
      with Response show ?thesis using stop by (simp add: get_ride_history_def)
    next
      case True
      with Response have g: "get_ride_history net tok p (Some ep) = ([?rq], Inr (body, Some ep))"
        by (simp add: get_ride_history_def)
      show ?thesis
      proof (cases "fst ?run = [?rq]")
        case True
        then show ?thesis using stop by simp
      next
        case False
        then have "fst ?run = ?rq # fst (fetch_loop fuel net tok (acc @ py_iter (extract_rides body)) (Suc p) (Some ep))"
          using g by (auto simp: Let_def split: if_splits option.splits prod.splits)
        then show ?thesis using go by blast
      qed
    qed
  qed
  then show ?case
  proof cases
    case stop
    with one show ?thesis by metis
  next
    case (go acc')
    from Suc.IH [of acc' "Suc p"] obtain m where
      "fst (fetch_loop fuel net tok acc' (Suc p) (Some ep)) = map (\<lambda>q. (url_of ep, tok, q)) [Suc p..<Suc p + m]"
      by blast
    with go have "fst ?run = map (\<lambda>q. (url_of ep, tok, q)) [p..<p + Suc m]"
      by (simp add: upt_conv_Cons)
    then show ?thesis by blast
  qed
qed

lemma fetch_all_rides_pinned_log:
  assumes first: "get_ride_history net tok 1 None = (reqs, Inr (d, Some ep))"
  shows "\<exists>m. fst (fetch_all_rides (Suc fuel) net tok) = reqs @ map (\<lambda>q. (url_of ep, tok, q)) [2..<2 + m]"
proof (cases "fst (fetch_all_rides (Suc fuel) net tok) = reqs")
  case True
  then have "fst (fetch_all_rides (Suc fuel) net tok) = reqs @ map (\<lambda>q. (url_of ep, tok, q)) [2..<2 + 0]"
    by simp
  then show ?thesis by blast
next
  case False
  then have "fst (fetch_all_rides (Suc fuel) net tok) =
          reqs @ fst (fetch_loop fuel net tok ([] @ py_iter (extract_rides d)) 2 (Some ep))"
    using first
    by (auto simp: fetch_all_rides_def Let_def numeral_2_eq_2 split: if_splits option.splits prod.splits)
  moreover obtain m where
    "fst (fetch_loop fuel net tok ([] @ py_iter (extract_rides d)) 2 (Some ep)) = map (\<lambda>q. (url_of ep, tok, q)) [2..<2 + m]"
    using fetch_loop_pinned_log by blast
  ultimately show ?thesis by metis
qed

lemma fetch_loop_pinned_failure:
  assumes "\<forall>body. net (url_of ep, tok, p) \<noteq> Response 200 body"
  shows "get_ride_history net tok p (Some ep) = ([(url_of ep, tok, p)], Inr (JNull, None))
           \<and> fetch_loop (Suc fuel) net tok acc p (Some ep) = ([(url_of ep, tok, p)], Some (Inr acc))
         \<or> get_ride_history net tok p (Some ep) = ([(url_of ep, tok, p)], Inl RequestException)
           \<and> fetch_loop (Suc fuel) net tok acc p (Some ep) = ([(url_of ep, tok, p)], Some (Inl RequestException))"
  using assms by (cases "net (url_of ep, tok, p)") (auto simp: get_ride_history_def)

lemma probe_second:
  assumes "\<forall>body. net (url_of c1, tok, p) \<noteq> Response 200 body"
    and "net (url_of c2, tok, p) = Response 200 d"
  shows "probe net tok p (c1 # c2 # cs) = ([(url_of c1, tok, p), (url_of c2, tok, p)], d, Some c2)"
  using assms by (cases "net (url_of c1, tok, p)") auto

lemma paged_endpoint_first:
  "pages \<noteq> [] \<Longrightarrow>
   get_ride_history (paged_endpoint pages) tok 1 None =
     ([(url_of (API_ENDPOINTS ! 0), tok, 1)], Inr (page_payload pages 1, Some (API_ENDPOINTS ! 0)))"
  by (cases pages) (simp_all add: get_ride_history_def API_ENDPOINTS_def paged_endpoint_def)

lemma extract_page_payload:
  "extract_rides (page_payload pages q) = JList (pages ! (q - 1))"
  by (simp add: page_payload_def dict_get_def)


text \<open>
  The three runs of the specification, for pages of 100, 100, 37 records, of 100, 100, 0
  records and of 5 records: the pages requested and the number of records returned.
\<close>

lemma fetch_all_rides_example_237:
  "map (\<lambda>rq. snd (snd rq)) (fst (fetch_all_rides 10 (paged_endpoint [replicate 100 (ride_stub ''a''), replicate 100 (ride_stub ''b''), replicate 37 (ride_stub ''c'')]) (JStr ''token''))) = [1, 2, 3]
   \<and> map_option (map_sum id length) (snd (fetch_all_rides 10 (paged_endpoint [replicate 100 (ride_stub ''a''), replicate 100 (ride_stub ''b''), replicate 37 (ride_stub ''c'')]) (JStr ''token'')))
       = Some (Inr 237)"
  by code_simp

lemma fetch_all_rides_example_200:
  "map (\<lambda>rq. snd (snd rq)) (fst (fetch_all_rides 10 (paged_endpoint [replicate 100 (ride_stub ''a''), replicate 100 (ride_stub ''b''), []]) (JStr ''token''))) = [1, 2, 3]
   \<and> map_option (map_sum id length) (snd (fetch_all_rides 10 (paged_endpoint [replicate 100 (ride_stub ''a''), replicate 100 (ride_stub ''b''), []]) (JStr ''token'')))
       = Some (Inr 200)"
  by code_simp

lemma fetch_all_rides_example_5:
  "map (\<lambda>rq. snd (snd rq)) (fst (fetch_all_rides 10 (paged_endpoint [replicate 5 (ride_stub ''a'')]) (JStr ''token''))) = [1]
   \<and> map_option (map_sum id length) (snd (fetch_all_rides 10 (paged_endpoint [replicate 5 (ride_stub ''a'')]) (JStr ''token'')))
       = Some (Inr 5)"
  by code_simp

text \<open>
  C1. Let the first call pin an endpoint and let pages 1 to \<open>k\<close> be answered with ride lists,
  all of them before the \<open>k\<close>-th holding at least \<open>PAGE_SIZE = 100\<close> records. Then the loop
  is still running after fewer than \<open>k\<close> pages; if the \<open>k\<close>-th list is shorter than 100
  (empty included) the function returns after exactly \<open>k\<close> pages, one request per page from
  the second page on, with the concatenation of the \<open>k\<close> lists in page order; and if the
  \<open>k\<close>-th list is full as well the loop is still running after \<open>k\<close> pages.
\<close>

theorem fetch_all_rides_pagination:
  assumes "get_ride_history net tok 1 None = (reqs, Inr (d 1, Some ep))"
    and "\<forall>q. 2 \<le> q \<and> q \<le> k \<longrightarrow> net (url_of ep, tok, q) = Response 200 (d q)"
    and "\<forall>q. 1 \<le> q \<and> q \<le> k \<longrightarrow> extract_rides (d q) = JList (rs q)"
    and "\<forall>q. 1 \<le> q \<and> q < k \<longrightarrow> PAGE_SIZE \<le> length (rs q)"
    and "1 \<le> k"
  shows "(\<forall>fuel. fuel < k \<longrightarrow> snd (fetch_all_rides fuel net tok) = None)
       \<and> (length (rs k) < PAGE_SIZE \<longrightarrow>
            (\<forall>fuel. k \<le> fuel \<longrightarrow>
               fetch_all_rides fuel net tok =
                 (reqs @ map (\<lambda>q. (url_of ep, tok, q)) [2..<Suc k],
                  Some (Inr (concat (map rs [1..<Suc k]))))))
       \<and> (PAGE_SIZE \<le> length (rs k) \<longrightarrow> snd (fetch_all_rides k net tok) = None)"
proof (intro conjI allI impI)
  fix fuel assume "fuel < k"
  then show "snd (fetch_all_rides fuel net tok) = None"
    using assms by (intro fetch_all_rides_still_running [where d = d and rs = rs and ep = ep and reqs = reqs]) auto
next
  fix fuel assume "length (rs k) < PAGE_SIZE" "k \<le> fuel"
  then show "fetch_all_rides fuel net tok =
                 (reqs @ map (\<lambda>q. (url_of ep, tok, q)) [2..<Suc k],
                  Some (Inr (concat (map rs [1..<Suc k]))))"
    using assms by (intro fetch_all_rides_pages [where d = d and rs = rs]) auto
next
  assume "PAGE_SIZE \<le> length (rs k)"
  then show "snd (fetch_all_rides k net tok) = None"
    using assms
    by (intro fetch_all_rides_still_running [where d = d and rs = rs and ep = ep and reqs = reqs])
       (auto simp: le_less)
qed


theorem fetch_all_rides_pagination_witness:
  "fetch_all_rides 3 (paged_endpoint [replicate 100 (ride_stub ''a''), replicate 100 (ride_stub ''b''),
                                      replicate 37 (ride_stub ''c'')]) (JStr ''token'') =
     (map (\<lambda>q. (url_of (API_ENDPOINTS ! 0), JStr ''token'', q)) [1, 2, 3],
      Some (Inr (replicate 100 (ride_stub ''a'') @ replicate 100 (ride_stub ''b'')
                  @ replicate 37 (ride_stub ''c''))))
   \<and> length (replicate 100 (ride_stub ''a'') @ replicate 100 (ride_stub ''b'')
                  @ replicate 37 (ride_stub ''c'')) = 237
   \<and> snd (fetch_all_rides 2 (paged_endpoint [replicate 100 (ride_stub ''a''),
             replicate 100 (ride_stub ''b''), replicate 37 (ride_stub ''c'')]) (JStr ''token'')) = None"
proof -
  define pages where "pages = [replicate 100 (ride_stub ''a''), replicate 100 (ride_stub ''b''),
                                      replicate 37 (ride_stub ''c'')]"
  let ?net = "paged_endpoint pages"
  let ?rs = "\<lambda>q. pages ! (q - 1)"
  have len: "length pages = 3" by (simp add: pages_def)
  have h1: "get_ride_history ?net (JStr ''token'') 1 None =
     ([(url_of (API_ENDPOINTS ! 0), JStr ''token'', 1)], Inr (page_payload pages 1, Some (API_ENDPOINTS ! 0)))"
    by (rule paged_endpoint_first) (simp add: pages_def)
  have h2: "\<forall>q. 2 \<le> q \<and> q \<le> 3 \<longrightarrow>
      ?net (url_of (API_ENDPOINTS ! 0), JStr ''token'', q) = Response 200 (page_payload pages q)"
    by (simp add: paged_endpoint_def len)
  have h3: "\<forall>q. 1 \<le> q \<and> q \<le> 3 \<longrightarrow> extract_rides (page_payload pages q) = JList (?rs q)"
    by (simp add: extract_page_payload)
  have h4: "\<forall>q. 1 \<le> q \<and> q < 3 \<longrightarrow> PAGE_SIZE \<le> length (?rs q)"
  proof (intro allI impI)
    fix q :: nat assume "1 \<le> q \<and> q < 3"
    then have "q = 1 \<or> q = 2" by arith
    then show "PAGE_SIZE \<le> length (?rs q)" by (auto simp: PAGE_SIZE_def pages_def)
  qed
  have h5: "(1::nat) \<le> 3" by simp
  have u: "[2..<Suc 3] = [2, 3]" "[1..<Suc 3] = [1, 2, 3]" by (simp_all add: upt_rec)
  have p: "pages ! 0 = replicate 100 (ride_stub ''a'')" "pages ! Suc 0 = replicate 100 (ride_stub ''b'')"
    "pages ! 2 = replicate 37 (ride_stub ''c'')" by (simp_all add: pages_def)
  note t = fetch_all_rides_pagination [where net = ?net and d = "page_payload pages" and rs = ?rs
      and k = 3, OF h1 h2 h3 h4 h5]
  from t have a: "snd (fetch_all_rides 2 ?net (JStr ''token'')) = None" by simp
  have short: "length (?rs 3) < PAGE_SIZE" by (simp add: p PAGE_SIZE_def)
  from t short have "fetch_all_rides 3 ?net (JStr ''token'') =
                 ([(url_of (API_ENDPOINTS ! 0), JStr ''token'', 1)] @ map (\<lambda>q. (url_of (API_ENDPOINTS ! 0), JStr ''token'', q)) [2..<Suc 3],
                  Some (Inr (concat (map ?rs [1..<Suc 3]))))" by blast
  then have b: "fetch_all_rides 3 ?net (JStr ''token'') =
     (map (\<lambda>q. (url_of (API_ENDPOINTS ! 0), JStr ''token'', q)) [1, 2, 3],
      Some (Inr (replicate 100 (ride_stub ''a'') @ replicate 100 (ride_stub ''b'')
                  @ replicate 37 (ride_stub ''c''))))"
    unfolding u by (simp add: p)
  show ?thesis using a b unfolding pages_def [symmetric] by simp
qed

lemma expired_from_first:
  "1 < k \<Longrightarrow> pages \<noteq> [] \<Longrightarrow>
   get_ride_history (expired_from k (paged_endpoint pages)) tok 1 None =
     ([(url_of (API_ENDPOINTS ! 0), tok, 1)], Inr (page_payload pages 1, Some (API_ENDPOINTS ! 0)))"
  by (cases pages)
     (simp_all add: get_ride_history_def API_ENDPOINTS_def paged_endpoint_def expired_from_def)


lemma without_first_candidate_first:
  "pages \<noteq> [] \<Longrightarrow>
   get_ride_history (without_first_candidate (paged_endpoint pages)) tok 1 None =
     ([(url_of (API_ENDPOINTS ! 0), tok, 1), (url_of (API_ENDPOINTS ! 1), tok, 1)],
      Inr (page_payload pages 1, Some (API_ENDPOINTS ! 1)))"
  by (cases pages)
     (simp_all add: get_ride_history_def API_ENDPOINTS_def paged_endpoint_def
                    without_first_candidate_def url_of_def)

lemma pinning_example:
  "fetch_all_rides 10 (without_first_candidate (paged_endpoint
       [replicate 100 (ride_stub ''a''), replicate 100 (ride_stub ''b''), replicate 5 (ride_stub ''c'')]))
     (JStr ''token'')
   = ([(url_of (API_ENDPOINTS ! 0), JStr ''token'', 1), (url_of (API_ENDPOINTS ! 1), JStr ''token'', 1),
       (url_of (API_ENDPOINTS ! 1), JStr ''token'', 2), (url_of (API_ENDPOINTS ! 1), JStr ''token'', 3)],
      Some (Inr (replicate 100 (ride_stub ''a'') @ replicate 100 (ride_stub ''b'')
                  @ replicate 5 (ride_stub ''c''))))"
  by code_simp


text \<open>
  C3. Let the first call pin an endpoint and let the pages before page \<open>k\<close> (with \<open>k\<close> at
  least 2) be answered with full ride lists. If the pinned endpoint answers page \<open>k\<close> with
  status 401, then \<^verbatim>\<open>get_ride_history\<close> gives \<^verbatim>\<open>None, None\<close> after that one request, and
  \<^verbatim>\<open>fetch_all_rides\<close> returns exactly the records of the pages before \<open>k\<close>, which are not
  empty, without any request after the one for page \<open>k\<close>.
\<close>

theorem fetch_all_rides_auth_expired:
  assumes "get_ride_history net tok 1 None = (reqs, Inr (d 1, Some ep))"
    and "\<forall>q. 2 \<le> q \<and> q < k \<longrightarrow> net (url_of ep, tok, q) = Response 200 (d q)"
    and "\<forall>q. 1 \<le> q \<and> q < k \<longrightarrow> extract_rides (d q) = JList (rs q)"
    and "\<forall>q. 1 \<le> q \<and> q < k \<longrightarrow> PAGE_SIZE \<le> length (rs q)"
    and "2 \<le> k"
    and "net (url_of ep, tok, k) = Response 401 body"
    and "k \<le> fuel"
  shows "get_ride_history net tok k (Some ep) = ([(url_of ep, tok, k)], Inr (JNull, None))
       \<and> fetch_all_rides fuel net tok =
           (reqs @ map (\<lambda>q. (url_of ep, tok, q)) [2..<Suc k],
            Some (Inr (concat (map rs [1..<k]))))
       \<and> concat (map rs [1..<k]) \<noteq> []"
proof (intro conjI)
  show "get_ride_history net tok k (Some ep) = ([(url_of ep, tok, k)], Inr (JNull, None))"
    using assms(6) by (simp add: get_ride_history_def)
  show "fetch_all_rides fuel net tok =
           (reqs @ map (\<lambda>q. (url_of ep, tok, q)) [2..<Suc k],
            Some (Inr (concat (map rs [1..<k]))))"
    by (rule fetch_all_rides_expired [where d = d and rs = rs and st = 401 and body = body])
       (use assms in auto)
  have "PAGE_SIZE \<le> length (concat (map rs [1..<k]))"
    using assms(4,5) by (rule first_page_nonempty)
  then have many: "100 \<le> length (concat (map rs [1..<k]))"
    by (simp only: PAGE_SIZE_def)
  show "concat (map rs [1..<k]) \<noteq> []"
  proof
    assume "concat (map rs [1..<k]) = []"
    then have "length (concat (map rs [1..<k])) = 0" by (simp only: list.size)
    with many show False by linarith
  qed
qed

theorem fetch_all_rides_auth_expired_witness:
  "fetch_all_rides 5 (expired_from 3 (paged_endpoint [replicate 100 (ride_stub ''a''),
        replicate 100 (ride_stub ''b''), replicate 100 (ride_stub ''c'')])) (JStr ''token'') =
     (map (\<lambda>q. (url_of (API_ENDPOINTS ! 0), JStr ''token'', q)) [1, 2, 3],
      Some (Inr (replicate 100 (ride_stub ''a'') @ replicate 100 (ride_stub ''b''))))
   \<and> length (replicate 100 (ride_stub ''a'') @ replicate 100 (ride_stub ''b'')) = 200"
proof -
  define pages where "pages = [replicate 100 (ride_stub ''a''), replicate 100 (ride_stub ''b''),
                                      replicate 100 (ride_stub ''c'')]"
  let ?net = "expired_from 3 (paged_endpoint pages)"
  let ?rs = "\<lambda>q. pages ! (q - 1)"
  let ?ep = "API_ENDPOINTS ! 0"
  have len: "length pages = 3" by (simp add: pages_def)
  have h1: "get_ride_history ?net (JStr ''token'') 1 None =
     ([(url_of ?ep, JStr ''token'', 1)], Inr (page_payload pages 1, Some ?ep))"
    by (rule expired_from_first) (simp_all add: pages_def)
  have h2: "\<forall>q. 2 \<le> q \<and> q < 3 \<longrightarrow>
      ?net (url_of ?ep, JStr ''token'', q) = Response 200 (page_payload pages q)"
    by (simp add: paged_endpoint_def expired_from_def len)
  have h3: "\<forall>q. 1 \<le> q \<and> q < 3 \<longrightarrow> extract_rides (page_payload pages q) = JList (?rs q)"
    by (simp add: extract_page_payload)
  have h4: "\<forall>q. 1 \<le> q \<and> q < 3 \<longrightarrow> PAGE_SIZE \<le> length (?rs q)"
  proof (intro allI impI)
    fix q :: nat assume "1 \<le> q \<and> q < 3"
    then have "q = 1 \<or> q = 2" by arith
    then show "PAGE_SIZE \<le> length (?rs q)" by (auto simp: PAGE_SIZE_def pages_def)
  qed
  have h5: "(2::nat) \<le> 3" by simp
  have h6: "?net (url_of ?ep, JStr ''token'', 3)
              = Response 401 (JDict [(''error'', JStr ''invalid bearer token'')])"
    by (simp add: expired_from_def)
  have h7: "(3::nat) \<le> 5" by simp
  have u: "[2..<Suc 3] = [2, 3]" "[1..<3] = [1, 2]" by (simp_all add: upt_rec)
  have p: "pages ! 0 = replicate 100 (ride_stub ''a'')" "pages ! Suc 0 = replicate 100 (ride_stub ''b'')"
    by (simp_all add: pages_def)
  note t = fetch_all_rides_auth_expired [where net = ?net and d = "page_payload pages" and rs = ?rs
      and k = 3, OF h1 h2 h3 h4 h5 h6 h7]
  from t have "fetch_all_rides 5 ?net (JStr ''token'') =
           ([(url_of ?ep, JStr ''token'', 1)] @ map (\<lambda>q. (url_of ?ep, JStr ''token'', q)) [2..<Suc 3],
            Some (Inr (concat (map ?rs [1..<3]))))" by blast
  then have b: "fetch_all_rides 5 ?net (JStr ''token'') =
     (map (\<lambda>q. (url_of ?ep, JStr ''token'', q)) [1, 2, 3],
      Some (Inr (replicate 100 (ride_stub ''a'') @ replicate 100 (ride_stub ''b''))))"
    unfolding u by (simp add: p)
  show ?thesis using b unfolding pages_def [symmetric] by simp
qed

text \<open>
  What probing returns with an endpoint: the candidates before it were asked in order and
  did not answer 200, and it is the first that did.
\<close>

lemma probe_pins_first_answering:
  assumes "probe net tok p eps = (reqs, d, Some ep)"
  shows "\<exists>pre post. eps = pre @ ep # post
           \<and> (\<forall>c\<in>set pre. \<forall>body. net (url_of c, tok, p) \<noteq> Response 200 body)
           \<and> net (url_of ep, tok, p) = Response 200 d
           \<and> reqs = map (\<lambda>c. (url_of c, tok, p)) (pre @ [ep])"
  using assms
proof (induction eps arbitrary: reqs)
  case Nil
  then show ?case by simp
next
  case (Cons c eps)
  show ?case
  proof (cases "\<exists>body. net (url_of c, tok, p) = Response 200 body")
    case True
    then obtain body where b: "net (url_of c, tok, p) = Response 200 body" by blast
    with Cons.prems have e: "reqs = [(url_of c, tok, p)]" "d = body" "ep = c" by auto
    have "c # eps = [] @ ep # eps
           \<and> (\<forall>c\<in>set []. \<forall>body. net (url_of c, tok, p) \<noteq> Response 200 body)
           \<and> net (url_of ep, tok, p) = Response 200 d
           \<and> reqs = map (\<lambda>c. (url_of c, tok, p)) ([] @ [ep])"
      using b e by simp
    then show ?thesis by blast
  next
    case False
    then obtain reqs' where r: "probe net tok p eps = (reqs', d, Some ep)"
        "reqs = (url_of c, tok, p) # reqs'"
      using Cons.prems
      by (cases "net (url_of c, tok, p)") (auto split: prod.splits if_splits)
    from Cons.IH [OF r(1)] obtain pre post where i: "eps = pre @ ep # post"
        "\<forall>c\<in>set pre. \<forall>body. net (url_of c, tok, p) \<noteq> Response 200 body"
        "net (url_of ep, tok, p) = Response 200 d"
        "reqs' = map (\<lambda>c. (url_of c, tok, p)) (pre @ [ep])"
      by blast
    have "c # eps = (c # pre) @ ep # post
           \<and> (\<forall>c\<in>set (c # pre). \<forall>body. net (url_of c, tok, p) \<noteq> Response 200 body)
           \<and> net (url_of ep, tok, p) = Response 200 d
           \<and> reqs = map (\<lambda>c. (url_of c, tok, p)) ((c # pre) @ [ep])"
      using i r(2) False by simp
    then show ?thesis by blast
  qed
qed

text \<open>
  C4. Let a candidate endpoint have answered 200 on page 1, so that it is pinned. Then in
  every run of \<^verbatim>\<open>fetch_all_rides\<close>, finished or not, the requests after those of page 1 go to
  the pinned endpoint only, one for each of the pages 2, 3, ... in turn; the same holds for
  the loop entered with the endpoint pinned at any page. When the pinned endpoint does not
  answer 200, \<^verbatim>\<open>get_ride_history\<close> reports the failure (\<^verbatim>\<open>None, None\<close>, or the exception
  of the request) after that single request and the loop ends there, no other candidate
  being asked. The pinned endpoint is the first candidate, in the fixed order, that
  answered 200 on page 1, the candidates before it having been asked once each: the first
  candidate when it answered 200, the second one when the first did not.
\<close>

theorem pinned_endpoint_only:
  assumes "get_ride_history net tok 1 None = (reqs, Inr (d, Some ep))"
  shows "(\<exists>m. fst (fetch_all_rides (Suc fuel) net tok)
               = reqs @ map (\<lambda>q. (url_of ep, tok, q)) [2..<2 + m])
       \<and> (\<exists>m. fst (fetch_loop fuel net tok acc p (Some ep))
               = map (\<lambda>q. (url_of ep, tok, q)) [p..<p + m])
       \<and> ((\<forall>body. net (url_of ep, tok, p) \<noteq> Response 200 body) \<longrightarrow>
              get_ride_history net tok p (Some ep) = ([(url_of ep, tok, p)], Inr (JNull, None))
              \<and> fetch_loop (Suc fuel) net tok acc p (Some ep)
                  = ([(url_of ep, tok, p)], Some (Inr acc))
            \<or> get_ride_history net tok p (Some ep)
                  = ([(url_of ep, tok, p)], Inl RequestException)
              \<and> fetch_loop (Suc fuel) net tok acc p (Some ep)
                  = ([(url_of ep, tok, p)], Some (Inl RequestException)))
       \<and> ((\<forall>body. net (url_of (API_ENDPOINTS ! 0), tok, 1) \<noteq> Response 200 body) \<longrightarrow>
              ep = API_ENDPOINTS ! 1
              \<and> reqs = [(url_of (API_ENDPOINTS ! 0), tok, 1), (url_of (API_ENDPOINTS ! 1), tok, 1)])
       \<and> ((\<exists>body. net (url_of (API_ENDPOINTS ! 0), tok, 1) = Response 200 body) \<longrightarrow>
              ep = API_ENDPOINTS ! 0
              \<and> reqs = [(url_of (API_ENDPOINTS ! 0), tok, 1)])
       \<and> (\<exists>pre post. API_ENDPOINTS = pre @ ep # post
              \<and> (\<forall>c\<in>set pre. \<forall>body. net (url_of c, tok, 1) \<noteq> Response 200 body)
              \<and> net (url_of ep, tok, 1) = Response 200 d
              \<and> reqs = map (\<lambda>c. (url_of c, tok, 1)) (pre @ [ep]))"
proof -
  have cands: "API_ENDPOINTS = [API_ENDPOINTS ! 0, API_ENDPOINTS ! 1]"
    by (simp add: API_ENDPOINTS_def)
  from assms have pr: "probe net tok 1 API_ENDPOINTS = (reqs, d, Some ep)"
    by (simp add: get_ride_history_def split: prod.splits)
  then have pr2: "probe net tok 1 [API_ENDPOINTS ! 0, API_ENDPOINTS ! 1] = (reqs, d, Some ep)"
    using cands by simp
  have a: "\<exists>m. fst (fetch_all_rides (Suc fuel) net tok)
               = reqs @ map (\<lambda>q. (url_of ep, tok, q)) [2..<2 + m]"
    using assms by (rule fetch_all_rides_pinned_log)
  have b: "\<exists>m. fst (fetch_loop fuel net tok acc p (Some ep))
               = map (\<lambda>q. (url_of ep, tok, q)) [p..<p + m]"
    by (rule fetch_loop_pinned_log)
  have c: "(\<forall>body. net (url_of ep, tok, p) \<noteq> Response 200 body) \<longrightarrow>
              get_ride_history net tok p (Some ep) = ([(url_of ep, tok, p)], Inr (JNull, None))
              \<and> fetch_loop (Suc fuel) net tok acc p (Some ep)
                  = ([(url_of ep, tok, p)], Some (Inr acc))
            \<or> get_ride_history net tok p (Some ep)
                  = ([(url_of ep, tok, p)], Inl RequestException)
              \<and> fetch_loop (Suc fuel) net tok acc p (Some ep)
                  = ([(url_of ep, tok, p)], Some (Inl RequestException))"
    using fetch_loop_pinned_failure [of net ep tok p fuel acc] by blast
  have d2: "(\<forall>body. net (url_of (API_ENDPOINTS ! 0), tok, 1) \<noteq> Response 200 body) \<longrightarrow>
              ep = API_ENDPOINTS ! 1
              \<and> reqs = [(url_of (API_ENDPOINTS ! 0), tok, 1), (url_of (API_ENDPOINTS ! 1), tok, 1)]"
    using pr2
    by (cases "net (url_of (API_ENDPOINTS ! 0), tok, 1)";
        cases "net (url_of (API_ENDPOINTS ! 1), tok, 1)")
       (auto split: if_splits)
  have d1: "(\<exists>body. net (url_of (API_ENDPOINTS ! 0), tok, 1) = Response 200 body) \<longrightarrow>
              ep = API_ENDPOINTS ! 0
              \<and> reqs = [(url_of (API_ENDPOINTS ! 0), tok, 1)]"
    using pr2 by auto
  have e: "\<exists>pre post. API_ENDPOINTS = pre @ ep # post
              \<and> (\<forall>c\<in>set pre. \<forall>body. net (url_of c, tok, 1) \<noteq> Response 200 body)
              \<and> net (url_of ep, tok, 1) = Response 200 d
              \<and> reqs = map (\<lambda>c. (url_of c, tok, 1)) (pre @ [ep])"
    using pr by (rule probe_pins_first_answering)
  from a b c d2 d1 e show ?thesis by (intro conjI)
qed

theorem pinned_endpoint_only_witness:
  "get_ride_history (without_first_candidate (paged_endpoint
       [replicate 100 (ride_stub ''a''), replicate 100 (ride_stub ''b''), replicate 5 (ride_stub ''c'')]))
     (JStr ''token'') 1 None
   = ([(url_of (API_ENDPOINTS ! 0), JStr ''token'', 1), (url_of (API_ENDPOINTS ! 1), JStr ''token'', 1)],
      Inr (page_payload [replicate 100 (ride_stub ''a''), replicate 100 (ride_stub ''b''),
                         replicate 5 (ride_stub ''c'')] 1, Some (API_ENDPOINTS ! 1)))
   \<and> (\<exists>m. fst (fetch_all_rides (Suc 9) (without_first_candidate (paged_endpoint
       [replicate 100 (ride_stub ''a''), replicate 100 (ride_stub ''b''), replicate 5 (ride_stub ''c'')]))
          (JStr ''token''))
        = [(url_of (API_ENDPOINTS ! 0), JStr ''token'', 1), (url_of (API_ENDPOINTS ! 1), JStr ''token'', 1)]
          @ map (\<lambda>q. (url_of (API_ENDPOINTS ! 1), JStr ''token'', q)) [2..<2 + m])
   \<and> get_ride_history (paged_endpoint [replicate 100 (ride_stub ''a''), replicate 5 (ride_stub ''b'')])
     (JStr ''token'') 1 None
   = ([(url_of (API_ENDPOINTS ! 0), JStr ''token'', 1)],
      Inr (page_payload [replicate 100 (ride_stub ''a''), replicate 5 (ride_stub ''b'')] 1,
           Some (API_ENDPOINTS ! 0)))
   \<and> (\<exists>m. fst (fetch_all_rides (Suc 9)
                (paged_endpoint [replicate 100 (ride_stub ''a''), replicate 5 (ride_stub ''b'')])
                (JStr ''token''))
        = [(url_of (API_ENDPOINTS ! 0), JStr ''token'', 1)]
          @ map (\<lambda>q. (url_of (API_ENDPOINTS ! 0), JStr ''token'', q)) [2..<2 + m])"
proof -
  define pages where "pages = [replicate 100 (ride_stub ''a''), replicate 100 (ride_stub ''b''),
                                      replicate 5 (ride_stub ''c'')]"
  define pages2 where "pages2 = [replicate 100 (ride_stub ''a''), replicate 5 (ride_stub ''b'')]"
  have h: "get_ride_history (without_first_candidate (paged_endpoint pages)) (JStr ''token'') 1 None
    = ([(url_of (API_ENDPOINTS ! 0), JStr ''token'', 1), (url_of (API_ENDPOINTS ! 1), JStr ''token'', 1)],
      Inr (page_payload pages 1, Some (API_ENDPOINTS ! 1)))"
    by (rule without_first_candidate_first) (simp add: pages_def)
  from pinned_endpoint_only [OF h, of 9]
  have a: "\<exists>m. fst (fetch_all_rides (Suc 9) (without_first_candidate (paged_endpoint pages)) (JStr ''token''))
        = [(url_of (API_ENDPOINTS ! 0), JStr ''token'', 1), (url_of (API_ENDPOINTS ! 1), JStr ''token'', 1)]
          @ map (\<lambda>q. (url_of (API_ENDPOINTS ! 1), JStr ''token'', q)) [2..<2 + m]"
    by blast
  have h2: "get_ride_history (paged_endpoint pages2) (JStr ''token'') 1 None
    = ([(url_of (API_ENDPOINTS ! 0), JStr ''token'', 1)],
       Inr (page_payload pages2 1, Some (API_ENDPOINTS ! 0)))"
    by (rule paged_endpoint_first) (simp add: pages2_def)
  from pinned_endpoint_only [OF h2, of 9]
  have b: "\<exists>m. fst (fetch_all_rides (Suc 9) (paged_endpoint pages2) (JStr ''token''))
        = [(url_of (API_ENDPOINTS ! 0), JStr ''token'', 1)]
          @ map (\<lambda>q. (url_of (API_ENDPOINTS ! 0), JStr ''token'', q)) [2..<2 + m]"
    by blast
  from h a h2 b show ?thesis unfolding pages_def pages2_def by blast
qed

section \<open>Properties of the exporter\<close>

lemma length_fieldnames: "length fieldnames = 50"
  by (simp add: fieldnames_def)

lemma distinct_fieldnames: "distinct fieldnames"
  by code_simp

lemma csv_rows_dicts:
  "csv_rows (map JDict ds) = (map (\<lambda>d. map (\<lambda>field. dict_get d field (JStr [])) fieldnames) ds, None)"
  by (induction ds) simp_all

lemma all_dicts:
  assumes "\<forall>r\<in>set rides. \<exists>d. r = JDict d"
  shows "\<exists>ds. rides = map JDict ds"
  using assms
proof (induction rides)
  case Nil
  then show ?case by simp
next
  case (Cons r rides)
  then obtain d ds where "r = JDict d" "rides = map JDict ds" by auto
  then have "r # rides = map JDict (d # ds)" by simp
  then show ?case by (rule exI)
qed

lemma count_list_map_None:
  "count_list (map f xs) None = length (filter (\<lambda>x. f x = None) xs)"
  by (induction xs) auto

lemma absent_columns:
  "count_list (map (map_of d) fieldnames) None = 50 - card (dom (map_of d) \<inter> set fieldnames)"
proof -
  have "count_list (map (map_of d) fieldnames) None = length (filter (\<lambda>f. map_of d f = None) fieldnames)"
    by (rule count_list_map_None)
  also have "\<dots> = card {f \<in> set fieldnames. map_of d f = None}"
    using distinct_fieldnames by (simp add: distinct_length_filter Int_def conj_commute)
  also have "{f \<in> set fieldnames. map_of d f = None} = set fieldnames - (dom (map_of d) \<inter> set fieldnames)"
    by (auto simp: dom_def)
  also have "card \<dots> = card (set fieldnames) - card (dom (map_of d) \<inter> set fieldnames)"
    by (rule card_Diff_subset) auto
  also have "card (set fieldnames) = 50"
    using distinct_fieldnames length_fieldnames by (simp add: distinct_card)
  finally show ?thesis .
qed

text \<open>
  C2 (as amended: the header has 50 columns, not 45). For every non-empty list of ride
  records that are JSON objects, \<^verbatim>\<open>export_to_csv\<close> writes the file with one header row of
  the 50 distinct field names in their fixed order, followed by one row per record, and
  raises nothing. The row of a record has 50 cells; the cell of a column is the record's
  value for that field, or the empty string when the record has no such field, so that
  fields of the record that are not columns do not appear; the number of columns absent
  from the record is 50 minus the number of known fields it has (47 for three known
  fields).
\<close>

theorem export_to_csv_rows:
  assumes "rides \<noteq> []" and "\<forall>r\<in>set rides. \<exists>d. r = JDict d"
  shows "length fieldnames = 50 \<and> distinct fieldnames
       \<and> (\<exists>rows. export_to_csv rides filename w =
                    (w\<lparr>outputs := (outputs w)(filename \<mapsto> CsvFile (map JStr fieldnames # rows))\<rparr>, None)
            \<and> length rows = length rides
            \<and> (\<forall>i d. i < length rides \<and> rides ! i = JDict d \<longrightarrow>
                  length (rows ! i) = 50
                  \<and> (\<forall>j<50. rows ! i ! j =
                        (case map_of d (fieldnames ! j) of Some v \<Rightarrow> v | None \<Rightarrow> JStr []))
                  \<and> count_list (map (map_of d) fieldnames) None
                      = 50 - card (dom (map_of d) \<inter> set fieldnames)))"
proof -
  from assms(2) obtain ds where ds: "rides = map JDict ds" using all_dicts by blast
  let ?rows = "map (\<lambda>d. map (\<lambda>field. dict_get d field (JStr [])) fieldnames) ds"
  have a: "export_to_csv rides filename w =
             (w\<lparr>outputs := (outputs w)(filename \<mapsto> CsvFile (map JStr fieldnames # ?rows))\<rparr>, None)"
    using assms(1) by (simp add: export_to_csv_def ds csv_rows_dicts)
  have b: "length ?rows = length rides" by (simp add: ds)
  have c: "\<forall>i d. i < length rides \<and> rides ! i = JDict d \<longrightarrow>
                  length (?rows ! i) = 50
                  \<and> (\<forall>j<50. ?rows ! i ! j =
                        (case map_of d (fieldnames ! j) of Some v \<Rightarrow> v | None \<Rightarrow> JStr []))
                  \<and> count_list (map (map_of d) fieldnames) None
                      = 50 - card (dom (map_of d) \<inter> set fieldnames)"
    by (auto simp: ds length_fieldnames dict_get_def absent_columns)
  from a b c length_fieldnames distinct_fieldnames show ?thesis by blast
qed

text \<open>
  The record with three known fields: the header has 50 columns and 47 cells of the row
  are empty, not 45 and 42.
\<close>

theorem export_to_csv_45_columns_counterexample:
  "export_to_csv [three_field_ride] ''rides.csv'' initial_world =
     (initial_world\<lparr>outputs := (outputs initial_world)(''rides.csv'' \<mapsto>
        CsvFile [map JStr fieldnames, [JInt 7, JStr ''r-7'', JStr ''COMPLETED''] @ replicate 47 (JStr [])])\<rparr>,
      None)
   \<and> length (map JStr fieldnames) = 50 \<and> length (map JStr fieldnames) \<noteq> 45
   \<and> count_list ([JInt 7, JStr ''r-7'', JStr ''COMPLETED''] @ replicate 47 (JStr [])) (JStr []) = 47
   \<and> count_list ([JInt 7, JStr ''r-7'', JStr ''COMPLETED''] @ replicate 47 (JStr [])) (JStr []) \<noteq> 42"
proof -
  have row: "map (\<lambda>field. dict_get [(''state'', JStr ''COMPLETED''), (''rideIntegerId'', JInt 7),
                 (''rideId'', JStr ''r-7''), (''surgeMultiplier'', JInt 2)] field (JStr [])) fieldnames
             = [JInt 7, JStr ''r-7'', JStr ''COMPLETED''] @ replicate 47 (JStr [])"
    by code_simp
  have cnt: "count_list ([JInt 7, JStr ''r-7'', JStr ''COMPLETED''] @ replicate 47 (JStr [])) (JStr []) = 47"
    by code_simp
  show ?thesis
    unfolding cnt by (simp add: export_to_csv_def three_field_ride_def row length_fieldnames)
qed

theorem export_to_csv_rows_witness:
  "[three_field_ride] \<noteq> []
   \<and> (\<exists>rows. export_to_csv [three_field_ride] ''rides.csv'' initial_world =
                (initial_world\<lparr>outputs := (outputs initial_world)(''rides.csv'' \<mapsto>
                   CsvFile (map JStr fieldnames # rows))\<rparr>, None)
        \<and> length rows = 1 \<and> length (rows ! 0) = 50
        \<and> rows ! 0 ! 0 = JInt 7 \<and> rows ! 0 ! 1 = JStr ''r-7'' \<and> rows ! 0 ! 2 = JStr ''COMPLETED''
        \<and> rows ! 0 ! 3 = JStr [] \<and> rows ! 0 ! 49 = JStr [])"
proof -
  let ?d = "[(''state'', JStr ''COMPLETED''), (''rideIntegerId'', JInt 7), (''rideId'', JStr ''r-7''),
            (''surgeMultiplier'', JInt 2)]"
  have h1: "[three_field_ride] \<noteq> []" by simp
  have h2: "\<forall>r\<in>set [three_field_ride]. \<exists>d. r = JDict d" by (simp add: three_field_ride_def)
  have f: "fieldnames ! 0 = ''rideIntegerId''" "fieldnames ! Suc 0 = ''rideId''" "fieldnames ! 2 = ''state''"
    "fieldnames ! 3 = ''status''" "fieldnames ! 49 = ''riderSsoId''"
    by (simp_all add: fieldnames_def)
  from export_to_csv_rows [OF h1 h2, of "''rides.csv''" initial_world]
  obtain rows where r: "export_to_csv [three_field_ride] ''rides.csv'' initial_world =
                (initial_world\<lparr>outputs := (outputs initial_world)(''rides.csv'' \<mapsto>
                   CsvFile (map JStr fieldnames # rows))\<rparr>, None)"
      "length rows = length [three_field_ride]"
      "\<forall>i d. i < length [three_field_ride] \<and> [three_field_ride] ! i = JDict d \<longrightarrow>
                  length (rows ! i) = 50
                  \<and> (\<forall>j<50. rows ! i ! j =
                        (case map_of d (fieldnames ! j) of Some v \<Rightarrow> v | None \<Rightarrow> JStr []))
                  \<and> count_list (map (map_of d) fieldnames) None
                      = 50 - card (dom (map_of d) \<inter> set fieldnames)"
    by blast
  from r(3) have cells: "length (rows ! 0) = 50"
     "\<forall>j<50. rows ! 0 ! j = (case map_of ?d (fieldnames ! j) of Some v \<Rightarrow> v | None \<Rightarrow> JStr [])"
    by (simp_all add: three_field_ride_def)
  from cells(2) have "rows ! 0 ! 0 = JInt 7" "rows ! 0 ! 1 = JStr ''r-7''" "rows ! 0 ! 2 = JStr ''COMPLETED''"
      "rows ! 0 ! 3 = JStr []" "rows ! 0 ! 49 = JStr []"
    by (simp_all add: f)
  with r(1,2) cells(1) h1 show ?thesis by auto
qed

section \<open>Properties of the OAuth client\<close>

text \<open>
  C6. Let a verifier be pending (the PKCE file holds a non-empty \<^verbatim>\<open>code_verifier\<close>), let
  the callback URL have a \<^verbatim>\<open>code\<close> parameter, and let the token endpoint answer the
  exchange with any status and body. Then after \<^verbatim>\<open>complete_auth\<close> the PKCE file is gone and
  \<^verbatim>\<open>load_pkce\<close> finds nothing, for status 200 as for any other status; and with a status
  other than 200 the run ends with \<^verbatim>\<open>sys.exit(1)\<close>.
\<close>

theorem complete_auth_clears_verifier:
  assumes "pkce_file w = Stored (JDict d)"
    and "map_of d ''code_verifier'' = Some code_verifier"
    and "truthy code_verifier"
    and "map_of (parse_qs ev callback_url) ''code'' = Some (auth_code # others)"
    and "token_endpoint ev [(''grant_type'', JStr ''authorization_code''),
                            (''client_id'', JStr CLIENT_ID),
                            (''code'', JStr auth_code),
                            (''code_verifier'', code_verifier),
                            (''redirect_uri'', JStr REDIRECT_URI)] = Response status_code tokens"
  shows "pkce_file (fst (complete_auth ev callback_url w)) = Absent
       \<and> load_pkce (fst (complete_auth ev callback_url w)) = Inr JNull
       \<and> (status_code \<noteq> 200 \<longrightarrow> snd (complete_auth ev callback_url w) = Inl (SystemExit 1))"
  using assms
  by (auto simp: complete_auth_def load_pkce_def clear_pkce_def dict_get_def Let_def
           split: json.splits)

theorem complete_auth_clears_verifier_witness:
  "pkce_file (save_pkce ''abc'' initial_world) = Stored (JDict [(''code_verifier'', JStr ''abc'')])
   \<and> pkce_file (fst (complete_auth
         (example_env (token_service 200 (JDict [(''access_token'', JStr ''at-1''),
                                                  (''refresh_token'', JStr ''rt-1'')])) [callback_example])
         callback_example (save_pkce ''abc'' initial_world))) = Absent
   \<and> pkce_file (fst (complete_auth
         (example_env (token_service 400 (JDict [(''error'', JStr ''invalid_grant'')])) [callback_example])
         callback_example (save_pkce ''abc'' initial_world))) = Absent
   \<and> snd (complete_auth
         (example_env (token_service 400 (JDict [(''error'', JStr ''invalid_grant'')])) [callback_example])
         callback_example (save_pkce ''abc'' initial_world)) = Inl (SystemExit 1)"
proof -
  let ?w = "save_pkce ''abc'' initial_world"
  let ?ok = "example_env (token_service 200 (JDict [(''access_token'', JStr ''at-1''),
                                                  (''refresh_token'', JStr ''rt-1'')])) [callback_example]"
  let ?no = "example_env (token_service 400 (JDict [(''error'', JStr ''invalid_grant'')])) [callback_example]"
  have h1: "pkce_file ?w = Stored (JDict [(''code_verifier'', JStr ''abc'')])"
    by (simp add: save_pkce_def)
  have h2: "map_of [(''code_verifier'', JStr ''abc'')] ''code_verifier'' = Some (JStr ''abc'')" by simp
  have h3: "truthy (JStr ''abc'')" by simp
  have h4: "\<And>s. map_of (parse_qs (example_env s [callback_example]) callback_example) ''code''
              = Some (''AUTHCODE'' # [])"
    by (simp add: example_env_def parse_qs_example_def)
  have h5: "\<And>st b x. token_endpoint (example_env (token_service st b) [callback_example]) x = Response st b"
    by (simp add: example_env_def token_service_def)
  from complete_auth_clears_verifier [of ?w _ "JStr ''abc''" ?ok callback_example, OF h1 h2 h3 h4 h5]
  have a: "pkce_file (fst (complete_auth ?ok callback_example ?w)) = Absent" by blast
  from complete_auth_clears_verifier [of ?w _ "JStr ''abc''" ?no callback_example, OF h1 h2 h3 h4 h5]
  have b: "pkce_file (fst (complete_auth ?no callback_example ?w)) = Absent"
    "snd (complete_auth ?no callback_example ?w) = Inl (SystemExit 1)" by simp_all
  from h1 a b show ?thesis by blast
qed

section \<open>Properties of the orchestrator\<close>

text \<open>Neither the token exchange nor fetching and exporting touches the token file.\<close>

lemma export_to_csv_tokens_file:
  "tokens_file (fst (export_to_csv rides filename w)) = tokens_file w"
  by (simp add: export_to_csv_def split: prod.splits)

lemma fetch_and_export_tokens_file:
  "tokens_file (fst (fetch_and_export ev access_token refresh_token w)) = tokens_file w"
proof -
  have "\<And>rides f w1 r. export_to_csv rides f w = (w1, r) \<Longrightarrow> tokens_file w1 = tokens_file w"
    using export_to_csv_tokens_file by (metis fst_conv)
  then show ?thesis
    by (auto simp: fetch_and_export_def Let_def split: option.splits sum.splits prod.splits)
qed

lemma complete_auth_tokens_file:
  "tokens_file (fst (complete_auth ev callback_url w)) = tokens_file w"
  by (auto simp: complete_auth_def clear_pkce_def Let_def
           split: sum.splits option.splits list.splits http_result.splits json.splits)

text \<open>
  C7 (as amended: the tokens are saved only when a refresh token came back). When a
  non-empty callback URL is given and \<^verbatim>\<open>complete_auth\<close> succeeds with it, \<^verbatim>\<open>main\<close> goes on
  to fetch and export with the returned access token. If the returned refresh token is
  present and not empty, the token file afterwards holds exactly the returned access and
  refresh token with the time of saving; otherwise the token file is left as it was.
\<close>

theorem main_callback_saves_tokens:
  assumes "argv ev = prog # callback_url # others"
    and "callback_url \<noteq> []"
    and "load_tokens w = Inr stored"
    and "complete_auth ev callback_url w = (w1, Inr (access_token, refresh_token))"
  shows "main ev w = fetch_and_export ev access_token refresh_token
                       (if truthy refresh_token then save_tokens ev access_token refresh_token w1
                        else w1)
       \<and> tokens_file (fst (main ev w)) =
           (if truthy refresh_token
            then Stored (JDict [(''access_token'', access_token),
                                (''refresh_token'', refresh_token),
                                (''saved_at'', JStr (now_isoformat ev))])
            else tokens_file w)"
proof -
  have m: "main ev w = fetch_and_export ev access_token refresh_token
                       (if truthy refresh_token then save_tokens ev access_token refresh_token w1
                        else w1)"
    using assms by (cases stored) (simp add: main_def main_login_def)
  have "tokens_file w1 = tokens_file w"
    using complete_auth_tokens_file [of ev callback_url w] assms(4) by simp
  then show ?thesis
    unfolding m by (simp add: fetch_and_export_tokens_file save_tokens_def)
qed

text \<open>
  A successful exchange that returns an access token and no refresh token: nothing is
  written to the token file.
\<close>

theorem main_callback_persists_counterexample:
  "snd (complete_auth (example_env (token_service 200 (JDict [(''access_token'', JStr ''at-1'')]))
                         [callback_example])
          callback_example (save_pkce ''abc'' initial_world))
     = Inr (JStr ''at-1'', JNull)
   \<and> tokens_file (fst (main (example_env (token_service 200 (JDict [(''access_token'', JStr ''at-1'')]))
                                [callback_example])
                          (save_pkce ''abc'' initial_world))) = Absent"
proof -
  let ?ev = "example_env (token_service 200 (JDict [(''access_token'', JStr ''at-1'')])) [callback_example]"
  let ?w = "save_pkce ''abc'' initial_world"
  have c: "complete_auth ?ev callback_example ?w = (clear_pkce ?w, Inr (JStr ''at-1'', JNull))"
    by (simp add: complete_auth_def load_pkce_def save_pkce_def dict_get_def example_env_def
                  parse_qs_example_def token_service_def)
  have l: "load_tokens ?w = Inr (JNull, JNull)"
    by (simp add: load_tokens_def save_pkce_def initial_world_def)
  have ne: "callback_example \<noteq> []" by (simp add: callback_example_def)
  have "main ?ev ?w = fetch_and_export ?ev (JStr ''at-1'') JNull (clear_pkce ?w)"
    using c l ne by (simp add: main_def main_login_def example_env_def)
  then have "tokens_file (fst (main ?ev ?w)) = tokens_file (clear_pkce ?w)"
    by (simp add: fetch_and_export_tokens_file)
  also have "\<dots> = Absent" by (simp add: clear_pkce_def save_pkce_def initial_world_def)
  finally show ?thesis using c by simp
qed

theorem main_callback_saves_tokens_witness:
  "tokens_file (fst (main (example_env (token_service 200 (JDict [(''access_token'', JStr ''at-1''),
                                                                   (''refresh_token'', JStr ''rt-1'')]))
                                [callback_example])
                          (save_pkce ''abc'' initial_world)))
     = Stored (JDict [(''access_token'', JStr ''at-1''), (''refresh_token'', JStr ''rt-1''),
                      (''saved_at'', JStr ''2025-07-01T12:00:00'')])"
proof -
  let ?ev = "example_env (token_service 200 (JDict [(''access_token'', JStr ''at-1''),
                                                    (''refresh_token'', JStr ''rt-1'')])) [callback_example]"
  let ?w = "save_pkce ''abc'' initial_world"
  have h1: "argv ?ev = ''robotaxi_history.py'' # callback_example # []" by (simp add: example_env_def)
  have h2: "callback_example \<noteq> []" by (simp add: callback_example_def)
  have h3: "load_tokens ?w = Inr (JNull, JNull)"
    by (simp add: load_tokens_def save_pkce_def initial_world_def)
  have h4: "complete_auth ?ev callback_example ?w = (clear_pkce ?w, Inr (JStr ''at-1'', JStr ''rt-1''))"
    by (simp add: complete_auth_def load_pkce_def save_pkce_def dict_get_def example_env_def
                  parse_qs_example_def token_service_def)
  have now: "now_isoformat ?ev = ''2025-07-01T12:00:00''" by (simp add: example_env_def)
  from main_callback_saves_tokens [OF h1 h2 h3 h4, THEN conjunct2]
  have "tokens_file (fst (main ?ev ?w)) =
          Stored (JDict [(''access_token'', JStr ''at-1''), (''refresh_token'', JStr ''rt-1''),
                         (''saved_at'', JStr (now_isoformat ?ev))])"
    by simp
  then show ?thesis by (simp only: now)
qed

text \<open>
  C10. Let no callback URL be given, let the token file hold a non-empty access token and a
  non-empty refresh token, and let the token endpoint answer the refresh with status 200,
  a non-empty access token and no \<^verbatim>\<open>refresh_token\<close> field. Then the refresh returns the
  new access token with \<^verbatim>\<open>None\<close>, and the token file afterwards holds the new access token
  together with the refresh token stored before, which is not \<^verbatim>\<open>None\<close>.
\<close>

theorem main_refresh_keeps_refresh_token:
  assumes "length (argv ev) \<le> 1"
    and "tokens_file w = Stored (JDict d)"
    and "map_of d ''access_token'' = Some old_access" and "truthy old_access"
    and "map_of d ''refresh_token'' = Some old_refresh" and "truthy old_refresh"
    and "token_endpoint ev [(''grant_type'', JStr ''refresh_token''),
                            (''client_id'', JStr CLIENT_ID),
                            (''refresh_token'', old_refresh)] = Response 200 (JDict t)"
    and "map_of t ''access_token'' = Some new_access" and "truthy new_access"
    and "map_of t ''refresh_token'' = None"
  shows "authenticate_with_refresh_token ev old_refresh = Inr (new_access, JNull)
       \<and> tokens_file (fst (main ev w)) =
           Stored (JDict [(''access_token'', new_access),
                          (''refresh_token'', old_refresh),
                          (''saved_at'', JStr (now_isoformat ev))])
       \<and> old_refresh \<noteq> JNull"
proof -
  have cb: "(case argv ev of [] \<Rightarrow> None | [x] \<Rightarrow> None | x # a # xs \<Rightarrow> Some a) = None"
    using assms(1) by (cases "argv ev") (auto split: list.splits)
  have l: "load_tokens w = Inr (old_access, old_refresh)"
    using assms by (simp add: load_tokens_def dict_get_def)
  have a: "authenticate_with_refresh_token ev old_refresh = Inr (new_access, JNull)"
    using assms by (simp add: authenticate_with_refresh_token_def dict_get_def)
  have "main ev w = fetch_and_export ev new_access old_refresh (save_tokens ev new_access old_refresh w)"
    using assms(4,6,9) by (simp add: main_def cb l a)
  then have "tokens_file (fst (main ev w)) = tokens_file (save_tokens ev new_access old_refresh w)"
    by (simp add: fetch_and_export_tokens_file)
  moreover have "old_refresh \<noteq> JNull" using assms(6) by auto
  ultimately show ?thesis using a by (simp add: save_tokens_def)
qed

theorem main_refresh_keeps_refresh_token_witness:
  "tokens_file (fst (main (example_env (token_service 200 (JDict [(''access_token'', JStr ''at-2''),
                                                                   (''expires_in'', JInt 28800)])) [])
       (initial_world\<lparr>tokens_file := Stored (JDict [(''access_token'', JStr ''at-1''),
                                                     (''refresh_token'', JStr ''rt-1''),
                                                     (''saved_at'', JStr ''2025-06-30T08:00:00'')])\<rparr>)))
     = Stored (JDict [(''access_token'', JStr ''at-2''), (''refresh_token'', JStr ''rt-1''),
                      (''saved_at'', JStr ''2025-07-01T12:00:00'')])"
proof -
  let ?ev = "example_env (token_service 200 (JDict [(''access_token'', JStr ''at-2''),
                                                    (''expires_in'', JInt 28800)])) []"
  let ?d = "[(''access_token'', JStr ''at-1''), (''refresh_token'', JStr ''rt-1''),
             (''saved_at'', JStr ''2025-06-30T08:00:00'')]"
  let ?w = "initial_world\<lparr>tokens_file := Stored (JDict ?d)\<rparr>"
  have h1: "length (argv ?ev) \<le> 1" by (simp add: example_env_def)
  have h2: "tokens_file ?w = Stored (JDict ?d)" by simp
  have h3: "map_of ?d ''access_token'' = Some (JStr ''at-1'')" "truthy (JStr ''at-1'')"
    "map_of ?d ''refresh_token'' = Some (JStr ''rt-1'')" "truthy (JStr ''rt-1'')" by simp_all
  have h4: "token_endpoint ?ev [(''grant_type'', JStr ''refresh_token''),
                            (''client_id'', JStr CLIENT_ID),
                            (''refresh_token'', JStr ''rt-1'')]
             = Response 200 (JDict [(''access_token'', JStr ''at-2''), (''expires_in'', JInt 28800)])"
    by (simp add: example_env_def token_service_def)
  have h5: "map_of [(''access_token'', JStr ''at-2''), (''expires_in'', JInt 28800)] ''access_token''
              = Some (JStr ''at-2'')" "truthy (JStr ''at-2'')"
    "map_of [(''access_token'', JStr ''at-2''), (''expires_in'', JInt 28800)] ''refresh_token'' = None"
    by simp_all
  have now: "now_isoformat ?ev = ''2025-07-01T12:00:00''" by (simp add: example_env_def)
  from main_refresh_keeps_refresh_token [OF h1 h2 h3 h4 h5, THEN conjunct2, THEN conjunct1]
  show ?thesis by (simp only: now)
qed

section \<open>Properties of the development proxy\<close>

lemma str_nat_401: "str_nat 401 = ''401''"
  by code_simp

text \<open>Candidates that raise an HTTP error other than 401 are passed over.\<close>

lemma try_endpoints_skip:
  assumes "\<forall>u\<in>set tried. \<exists>code. urlopen (u, auth_header) = HTTPError code \<and> code \<noteq> 401"
  shows "try_endpoints urlopen auth_header (tried @ urls) =
           (case try_endpoints urlopen auth_header urls of
              (contacted, r) \<Rightarrow> (map (\<lambda>u. (u, auth_header)) tried @ contacted, r))"
  using assms by (induction tried) (auto split: prod.splits)

text \<open>
  C9. The candidates are contacted in their fixed order. Let the candidates before some
  candidate all have raised an HTTP error with a status other than 401. If that candidate
  answers, its body is sent verbatim with status 200 and no later candidate is contacted;
  if it raises the HTTP error 401, status 401 is sent at once and no later candidate is
  contacted; if it and all later candidates raise HTTP errors other than 401, every
  candidate has been contacted and status 502 is sent with the error
  \<^verbatim>\<open>No working endpoint\<close>.
\<close>

theorem proxy_rides_request_cases:
  assumes "endpoints query = tried @ url # others"
    and "\<forall>u\<in>set tried. \<exists>code. urlopen (u, auth_header) = HTTPError code \<and> code \<noteq> 401"
  shows "(urlopen (url, auth_header) = Body data \<longrightarrow>
            proxy_rides_request urlopen auth_header query =
              (map (\<lambda>u. (u, auth_header)) (tried @ [url]),
               \<lparr>reply_status = 200,
                reply_headers = [(''Content-Type'', ''application/json''),
                                 (''Access-Control-Allow-Origin'', ''*'')],
                reply_body = Verbatim data\<rparr>))
       \<and> (urlopen (url, auth_header) = HTTPError 401 \<longrightarrow>
            proxy_rides_request urlopen auth_header query =
              (map (\<lambda>u. (u, auth_header)) (tried @ [url]),
               \<lparr>reply_status = 401,
                reply_headers = [(''Content-Type'', ''application/json''),
                                 (''Access-Control-Allow-Origin'', ''*'')],
                reply_body = JsonDumps [(''error'', ''API error: 401'')]\<rparr>))
       \<and> ((\<forall>u\<in>set (url # others). \<exists>code. urlopen (u, auth_header) = HTTPError code \<and> code \<noteq> 401) \<longrightarrow>
            proxy_rides_request urlopen auth_header query =
              (map (\<lambda>u. (u, auth_header)) (endpoints query),
               \<lparr>reply_status = 502,
                reply_headers = [(''Content-Type'', ''application/json'')],
                reply_body = JsonDumps [(''error'', ''No working endpoint'')]\<rparr>))"
proof (intro conjI impI)
  note skip = try_endpoints_skip [OF assms(2)]
  {
    assume "urlopen (url, auth_header) = Body data"
    then show "proxy_rides_request urlopen auth_header query =
              (map (\<lambda>u. (u, auth_header)) (tried @ [url]),
               \<lparr>reply_status = 200,
                reply_headers = [(''Content-Type'', ''application/json''),
                                 (''Access-Control-Allow-Origin'', ''*'')],
                reply_body = Verbatim data\<rparr>)"
      by (simp add: proxy_rides_request_def assms(1) skip)
  }
  {
    assume "urlopen (url, auth_header) = HTTPError 401"
    then show "proxy_rides_request urlopen auth_header query =
              (map (\<lambda>u. (u, auth_header)) (tried @ [url]),
               \<lparr>reply_status = 401,
                reply_headers = [(''Content-Type'', ''application/json''),
                                 (''Access-Control-Allow-Origin'', ''*'')],
                reply_body = JsonDumps [(''error'', ''API error: 401'')]\<rparr>)"
      by (simp add: proxy_rides_request_def assms(1) skip str_nat_401)
  }
  {
    assume "\<forall>u\<in>set (url # others). \<exists>code. urlopen (u, auth_header) = HTTPError code \<and> code \<noteq> 401"
    with assms(2) have "\<forall>u\<in>set (endpoints query). \<exists>code. urlopen (u, auth_header) = HTTPError code \<and> code \<noteq> 401"
      unfolding assms(1) by auto
    from try_endpoints_skip [OF this, of "[]"]
    show "proxy_rides_request urlopen auth_header query =
              (map (\<lambda>u. (u, auth_header)) (endpoints query),
               \<lparr>reply_status = 502,
                reply_headers = [(''Content-Type'', ''application/json'')],
                reply_body = JsonDumps [(''error'', ''No working endpoint'')]\<rparr>)"
      by (simp add: proxy_rides_request_def)
  }
qed

theorem proxy_rides_request_cases_witness:
  "proxy_rides_request upstream_example ''Bearer at-1'' ''pageNo=1'' =
     ([(''https://ownership.tesla.com/mobile-app/ride/history?pageNo=1'', ''Bearer at-1''),
       (''https://akamai-apigateway-charging-ownership.tesla.com/mobile-app/ride/history?pageNo=1'',
        ''Bearer at-1'')],
      \<lparr>reply_status = 200,
       reply_headers = [(''Content-Type'', ''application/json''),
                        (''Access-Control-Allow-Origin'', ''*'')],
       reply_body = Verbatim ''[]''\<rparr>)"
proof -
  let ?u1 = "''https://ownership.tesla.com/mobile-app/ride/history?pageNo=1''"
  let ?u2 = "''https://akamai-apigateway-charging-ownership.tesla.com/mobile-app/ride/history?pageNo=1''"
  have h1: "endpoints ''pageNo=1'' = [?u1] @ ?u2 # []" by (simp add: endpoints_def)
  have h2: "\<forall>u\<in>set [?u1]. \<exists>code. upstream_example (u, ''Bearer at-1'') = HTTPError code \<and> code \<noteq> 401"
    by (simp add: upstream_example_def)
  have h3: "upstream_example (?u2, ''Bearer at-1'') = Body ''[]''"
    by (simp add: upstream_example_def)
  from proxy_rides_request_cases [OF h1 h2, THEN conjunct1, rule_format, OF h3]
  show ?thesis by simp
qed

text \<open>
  Outside the three cases: an exception of \<^verbatim>\<open>urlopen\<close> that is not an HTTP error is not
  handled inside the loop; it reaches the outer handler, which sends status 500 with the
  text of the exception.
\<close>

lemma proxy_rides_request_other_exception:
  assumes "endpoints query = tried @ url # others"
    and "\<forall>u\<in>set tried. \<exists>code. urlopen (u, auth_header) = HTTPError code \<and> code \<noteq> 401"
    and "urlopen (url, auth_header) = OtherError msg"
  shows "proxy_rides_request urlopen auth_header query =
           (map (\<lambda>u. (u, auth_header)) (tried @ [url]),
            \<lparr>reply_status = 500,
             reply_headers = [(''Content-Type'', ''application/json'')],
             reply_body = JsonDumps [(''error'', msg)]\<rparr>)"
  using assms(3) by (simp add: proxy_rides_request_def assms(1) try_endpoints_skip [OF assms(2)])

end
